theory Spec2Isabelle
  imports Complex_Main
begin

section \<open>Electricity billing: fixed-rate and tiered tariff calculators\<close>

text \<open>
  A shallow embedding of \<^verbatim>\<open>fixed_rate.py\<close> and \<^verbatim>\<open>tiered_tariff_calculator.py\<close>.

  Numbers. Python's \<^verbatim>\<open>float\<close> (and the \<^verbatim>\<open>int\<close> arguments the callers pass) are
  embedded as \<^typ>\<open>real\<close>: arithmetic is exact, there is no rounding, no infinity and
  no NaN. The statements about the branching of the program are made under this
  reading. The statement about the tolerance \<^verbatim>\<open>1e-9\<close> depends on the roundings of the
  interpreter: for it the engine is embedded a second time, with every rounding of
  its \<^verbatim>\<open>float\<close> arithmetic written out (\<open>calculate_tiered_bill_double\<close>).

  Errors. Every \<^verbatim>\<open>raise\<close> is a value \<open>Inl e\<close> of a sum type. The exceptions raised by
  the repository's own \<^verbatim>\<open>raise ValueError(...)\<close> statements carry their message text;
  the exceptions raised by Python built-ins (tuple unpacking, \<^verbatim>\<open>float()\<close>,
  \<^verbatim>\<open>json.loads\<close>, iteration of a non-iterable) are separate constructors without text.
\<close>

datatype error =
    ValueError string     \<comment> \<open>\<^verbatim>\<open>raise ValueError(msg)\<close> written in the repository\<close>
  | UnpackError           \<comment> \<open>the \<^verbatim>\<open>ValueError\<close> of \<^verbatim>\<open>a, b = xs\<close> when \<^verbatim>\<open>len(xs) != 2\<close>\<close>
  | FloatError            \<comment> \<open>the \<^verbatim>\<open>ValueError\<close> of \<^verbatim>\<open>float(s)\<close> on a malformed string\<close>
  | TypeError             \<comment> \<open>\<^verbatim>\<open>float(None)\<close>, \<^verbatim>\<open>float([])\<close>, unpacking a number, ...\<close>
  | JSONDecodeError       \<comment> \<open>\<^verbatim>\<open>json.loads\<close> on malformed text\<close>
  | OverflowError         \<comment> \<open>an \<^verbatim>\<open>int\<close> too large to convert to \<^verbatim>\<open>float\<close>\<close>

subsection \<open>Text helpers: \<^verbatim>\<open>str(int)\<close> and the \<^verbatim>\<open>f\<close> format of numbers\<close>

definition digit_char :: "nat \<Rightarrow> char" where
  "digit_char d = ''0123456789'' ! (d mod 10)"

text \<open>\<^verbatim>\<open>str(n)\<close> for a non-negative integer: its decimal digits, no leading zero.\<close>

function str_nat :: "nat \<Rightarrow> string" where
  "str_nat n = (if n < 10 then [digit_char n] else str_nat (n div 10) @ [digit_char n])"
  by pat_completeness auto
termination
  by (relation "measure id") auto

declare str_nat.simps [simp del]

definition str_int :: "int \<Rightarrow> string" where
  "str_int i = (if i < 0 then CHR ''-'' # str_nat (nat (- i)) else str_nat (nat i))"

text \<open>
  The fixed-point presentation \<^verbatim>\<open>format(x, '.pf')\<close> rounds the value to \<open>p\<close> decimals,
  a tie going to the even neighbour, and prints sign, integer digits, a point and
  exactly \<open>p\<close> fraction digits. \<^verbatim>\<open>format(x, ',.pf')\<close> groups the integer digits in threes
  with commas.
\<close>

definition round_half_even :: "real \<Rightarrow> int" where
  "round_half_even x =
     (let f = \<lfloor>x\<rfloor>; d = x - of_int f
      in if d < 1 / 2 then f
         else if 1 / 2 < d then f + 1
         else if even f then f else f + 1)"

definition zero_pad :: "nat \<Rightarrow> string \<Rightarrow> string" where
  "zero_pad p s = replicate (p - length s) CHR ''0'' @ s"

function group3 :: "string \<Rightarrow> string" where
  "group3 ds =
     (if length ds \<le> 3 then ds
      else group3 (take (length ds - 3) ds) @ CHR '','' # drop (length ds - 3) ds)"
  by pat_completeness auto
termination
  by (relation "measure length") auto

declare group3.simps [simp del]

definition format_f :: "bool \<Rightarrow> nat \<Rightarrow> real \<Rightarrow> string" where
  "format_f grouped p x =
     (let m = nat (round_half_even (\<bar>x\<bar> * 10 ^ p));
          ip = str_nat (m div 10 ^ p);
          fp = zero_pad p (str_nat (m mod 10 ^ p))
      in (if x < 0 then ''-'' else '''')
         @ (if grouped then group3 ip else ip)
         @ (if p = 0 then '''' else CHR ''.'' # fp))"

subsection \<open>\<^verbatim>\<open>fixed_rate.py\<close>\<close>

definition fixed_rate_bill :: "real \<Rightarrow> real \<Rightarrow> real \<Rightarrow> error + real" where
  "fixed_rate_bill total_usage r fee =
     (if total_usage < 0 \<or> r < 0 \<or> fee < 0
      then Inl (ValueError ''Inputs must be non-negative.'')
      else Inr (total_usage * r + fee))"

subsection \<open>\<^verbatim>\<open>tiered_tariff_calculator.py\<close>: data\<close>

text \<open>A tier is \<^verbatim>\<open>(block_kwh, rate)\<close>; \<^verbatim>\<open>block_kwh = None\<close> is the unlimited block.\<close>

type_synonym tier = "real option \<times> real"

record TierBreakdown =
  tier_index :: nat
  kwh :: real
  rate :: real
  cost :: real

text \<open>The returned dict: all four keys are always present. Its breakdown is kept as
  the list of entries; \<open>as_dict\<close> below gives the dict of an entry.\<close>

record bill =
  breakdown :: "TierBreakdown list"
  energy_cost :: real
  fixed_fee :: real
  total :: real

subsection \<open>Validation helpers\<close>

definition validate_common :: "real \<Rightarrow> real \<Rightarrow> error + unit" where
  "validate_common consumption_kwh fee =
     (if consumption_kwh < 0 then Inl (ValueError ''consumption_kwh must be >= 0'')
      else if fee < 0 then Inl (ValueError ''fixed_fee must be >= 0'')
      else Inr ())"

text \<open>The \<^verbatim>\<open>for i, (block_kwh, rate) in enumerate(tier_list, start=1)\<close> loop of
  \<^verbatim>\<open>_validate_tier_list\<close>, from index \<open>i\<close> on.\<close>

fun validate_tiers_from :: "nat \<Rightarrow> tier list \<Rightarrow> error + unit" where
  "validate_tiers_from i [] = Inr ()"
| "validate_tiers_from i ((block_kwh, r) # ts) =
     (if r < 0 then Inl (ValueError (''rate for tier '' @ str_nat i @ '' must be >= 0''))
      else if block_kwh \<noteq> None \<and> the block_kwh \<le> 0
      then Inl (ValueError (''block_kwh for tier '' @ str_nat i
                              @ '' must be > 0 or None for unlimited''))
      else validate_tiers_from (Suc i) ts)"

definition validate_tier_list :: "tier list \<Rightarrow> error + unit" where
  "validate_tier_list tier_list =
     (if tier_list = [] then Inl (ValueError ''tiers must be a non-empty list'')
      else validate_tiers_from 1 tier_list)"

subsection \<open>Core computation\<close>

text \<open>
  The walk over the tiers: \<open>idx\<close> is the 1-based index of the head of the remaining
  tier list, \<open>remaining\<close> and \<open>bd\<close> are the loop's two variables. \<^verbatim>\<open>break\<close> returns
  the state as it is.
\<close>

fun walk :: "nat \<Rightarrow> real \<Rightarrow> TierBreakdown list \<Rightarrow> tier list \<Rightarrow> real \<times> TierBreakdown list" where
  "walk idx remaining bd [] = (remaining, bd)"
| "walk idx remaining bd ((block_kwh, r) # ts) =
     (if remaining \<le> 0 then (remaining, bd)
      else
        let block = (case block_kwh of None \<Rightarrow> remaining | Some b \<Rightarrow> min remaining b);
            c = block * r
        in walk (Suc idx) (remaining - block)
             (bd @ [\<lparr>tier_index = idx, kwh = block, rate = r, cost = c\<rparr>]) ts)"

definition overflow_message :: "real \<Rightarrow> string" where
  "overflow_message remaining =
     ''Consumption exceeds defined tiers by '' @ format_f False 3 remaining
     @ '' kWh. Add a final tier with block_kwh=None.''"

text \<open>\<^verbatim>\<open>sum(xs)\<close>: the left fold from 0.\<close>

definition py_sum :: "real list \<Rightarrow> real" where
  "py_sum xs = foldl (+) 0 xs"

definition calculate_tiered_bill :: "real \<Rightarrow> tier list \<Rightarrow> real \<Rightarrow> error + bill" where
  "calculate_tiered_bill consumption_kwh tier_list fee =
     (case validate_common consumption_kwh fee of
        Inl e \<Rightarrow> Inl e
      | Inr _ \<Rightarrow>
     (case validate_tier_list tier_list of
        Inl e \<Rightarrow> Inl e
      | Inr _ \<Rightarrow>
     (case walk 1 consumption_kwh [] tier_list of
        (remaining, bd) \<Rightarrow>
          if 1 / 1000000000 < remaining then Inl (ValueError (overflow_message remaining))
          else
            let ec = py_sum (map cost bd)
            in Inr \<lparr>breakdown = bd, energy_cost = ec, fixed_fee = fee, total = ec + fee\<rparr>)))"

subsection \<open>Parsing and presentation helpers\<close>

text \<open>
  The text given to \<^verbatim>\<open>parse_tiers\<close> is a Python \<^verbatim>\<open>str\<close>: a list of Unicode code
  points. \<open>ustr\<close> writes an ASCII text as its code points.

  \<^verbatim>\<open>str.strip()\<close> removes the characters for which \<^verbatim>\<open>str.isspace()\<close> holds:
  U+0009 to U+000D, U+001C to U+001F, U+0020, U+0085, U+00A0, U+1680, U+2000 to U+200A,
  U+2028, U+2029, U+202F, U+205F and U+3000.
\<close>

type_synonym ustring = "nat list"

definition ustr :: "string \<Rightarrow> ustring" where
  "ustr s = map of_char s"

definition isspace :: "nat \<Rightarrow> bool" where
  "isspace n =
     ((0x09 \<le> n \<and> n \<le> 0x0D) \<or> (0x1C \<le> n \<and> n \<le> 0x20) \<or> n = 0x85 \<or> n = 0xA0
      \<or> n = 0x1680 \<or> (0x2000 \<le> n \<and> n \<le> 0x200A) \<or> n = 0x2028 \<or> n = 0x2029
      \<or> n = 0x202F \<or> n = 0x205F \<or> n = 0x3000)"

definition lstrip :: "ustring \<Rightarrow> ustring" where
  "lstrip s = dropWhile isspace s"

definition rstrip :: "ustring \<Rightarrow> ustring" where
  "rstrip s = rev (dropWhile isspace (rev s))"

definition strip :: "ustring \<Rightarrow> ustring" where
  "strip s = lstrip (rstrip s)"

text \<open>\<^verbatim>\<open>s.split(sep)\<close> for a one-character separator: never empty, empty pieces kept.\<close>

fun split :: "'a \<Rightarrow> 'a list \<Rightarrow> 'a list list" where
  "split sep [] = [[]]"
| "split sep (ch # s) =
     (if ch = sep then [] # split sep s
      else (ch # hd (split sep s)) # tl (split sep s))"

text \<open>\<^verbatim>\<open>sep.join(xs)\<close>.\<close>

fun join :: "'a list \<Rightarrow> 'a list list \<Rightarrow> 'a list" where
  "join sep [] = []"
| "join sep [x] = x"
| "join sep (x # y # ys) = x @ sep @ join sep (y # ys)"

text \<open>
  \<^verbatim>\<open>float(s)\<close> on a string drops surrounding whitespace and then reads a numeric
  literal. Its whitespace is not that of \<^verbatim>\<open>str.strip()\<close>: the four separators U+001C
  to U+001F are not dropped (\<^verbatim>\<open>float("1\x1c")\<close> raises). The literal grammar is
  Python's own and is a parameter \<open>lit\<close> of the model (\<open>None\<close>: not a literal); the
  dropping of whitespace is written out.
\<close>

definition float_space :: "nat \<Rightarrow> bool" where
  "float_space n = (isspace n \<and> \<not> (0x1C \<le> n \<and> n \<le> 0x1F))"

definition float_strip :: "ustring \<Rightarrow> ustring" where
  "float_strip s = dropWhile float_space (rev (dropWhile float_space (rev s)))"

definition float_of_str :: "(ustring \<Rightarrow> real option) \<Rightarrow> ustring \<Rightarrow> error + real" where
  "float_of_str lit s =
     (case lit (float_strip s) of None \<Rightarrow> Inl FloatError | Some x \<Rightarrow> Inr x)"

text \<open>
  The values \<^verbatim>\<open>json.loads\<close> returns. Integers and floats are both numbers here, since
  the parser passes each through \<^verbatim>\<open>float\<close>. \<^verbatim>\<open>json.loads\<close> itself is a parameter
  \<open>json_loads\<close> of the model (\<open>None\<close>: malformed text).
\<close>

datatype json =
    JNull | JBool bool | JNum real | JStr ustring
  | JArr "json list" | JObj "(ustring \<times> json) list"

text \<open>\<^verbatim>\<open>float(v)\<close> on a decoded JSON value.\<close>

fun float_of_json :: "(ustring \<Rightarrow> real option) \<Rightarrow> json \<Rightarrow> error + real" where
  "float_of_json lit (JNum x) = Inr x"
| "float_of_json lit (JBool b) = Inr (if b then 1 else 0)"
| "float_of_json lit (JStr s) = float_of_str lit s"
| "float_of_json lit JNull = Inl TypeError"
| "float_of_json lit (JArr xs) = Inl TypeError"
| "float_of_json lit (JObj kvs) = Inl TypeError"

text \<open>\<^verbatim>\<open>for pair in data\<close>: the items a decoded value yields when iterated.\<close>

fun iterate :: "json \<Rightarrow> error + json list" where
  "iterate (JArr xs) = Inr xs"
| "iterate (JStr s) = Inr (map (\<lambda>ch. JStr [ch]) s)"
| "iterate (JObj kvs) = Inr (map (\<lambda>kv. JStr (fst kv)) kvs)"
| "iterate JNull = Inl TypeError"
| "iterate (JBool b) = Inl TypeError"
| "iterate (JNum x) = Inl TypeError"

text \<open>\<^verbatim>\<open>size, rate = pair\<close>.\<close>

definition unpack_pair :: "json \<Rightarrow> error + json \<times> json" where
  "unpack_pair pair =
     (case iterate pair of
        Inl e \<Rightarrow> Inl e
      | Inr [a, b] \<Rightarrow> Inr (a, b)
      | Inr _ \<Rightarrow> Inl UnpackError)"

text \<open>The loop of the JSON branch.\<close>

fun json_tiers :: "(ustring \<Rightarrow> real option) \<Rightarrow> json list \<Rightarrow> error + tier list" where
  "json_tiers lit [] = Inr []"
| "json_tiers lit (pair # rest) =
     (case unpack_pair pair of
        Inl e \<Rightarrow> Inl e
      | Inr (size_v, rate_v) \<Rightarrow>
     (case (if size_v = JNull then Inr None else map_sum id Some (float_of_json lit size_v)) of
        Inl e \<Rightarrow> Inl e
      | Inr sz \<Rightarrow>
     (case float_of_json lit rate_v of
        Inl e \<Rightarrow> Inl e
      | Inr r \<Rightarrow>
     (case json_tiers lit rest of
        Inl e \<Rightarrow> Inl e
      | Inr out \<Rightarrow> Inr ((sz, r) # out)))))"

text \<open>One round of the shorthand loop, and the loop. The separators are \<open>@\<close> (code
  point 64) and the comma (code point 44); \<open>[\<close> is code point 91.\<close>

definition shorthand_entry :: "(ustring \<Rightarrow> real option) \<Rightarrow> ustring \<Rightarrow> error + tier" where
  "shorthand_entry lit part =
     (case split (of_char CHR ''@'') (strip part) of
        [size_s, rate_s] \<Rightarrow>
          (case (if strip size_s \<in> {ustr ''*'', ustr ''None'', ustr ''null''} then Inr None
                 else map_sum id Some (float_of_str lit size_s)) of
             Inl e \<Rightarrow> Inl e
           | Inr sz \<Rightarrow>
          (case float_of_str lit rate_s of
             Inl e \<Rightarrow> Inl e
           | Inr r \<Rightarrow> Inr (sz, r)))
      | _ \<Rightarrow> Inl UnpackError)"

fun shorthand_tiers :: "(ustring \<Rightarrow> real option) \<Rightarrow> ustring list \<Rightarrow> error + tier list" where
  "shorthand_tiers lit [] = Inr []"
| "shorthand_tiers lit (part # rest) =
     (case shorthand_entry lit part of
        Inl e \<Rightarrow> Inl e
      | Inr t \<Rightarrow>
     (case shorthand_tiers lit rest of
        Inl e \<Rightarrow> Inl e
      | Inr out \<Rightarrow> Inr (t # out)))"

definition parse_tiers ::
  "(ustring \<Rightarrow> real option) \<Rightarrow> (ustring \<Rightarrow> json option) \<Rightarrow> ustring \<Rightarrow> error + tier list" where
  "parse_tiers lit json_loads text =
     (if text = [] then Inl (ValueError ''tiers text is empty'')
      else
        let t = strip text
        in if t \<noteq> [] \<and> hd t = of_char CHR ''[''
           then (case json_loads t of
                   None \<Rightarrow> Inl JSONDecodeError
                 | Some data \<Rightarrow>
                     (case iterate data of Inl e \<Rightarrow> Inl e | Inr pairs \<Rightarrow> json_tiers lit pairs))
           else shorthand_tiers lit (split (of_char CHR '','') t))"

definition format_currency :: "real \<Rightarrow> string \<Rightarrow> string" where
  "format_currency v symbol = symbol @ format_f True 2 v"

text \<open>
  The dicts \<^verbatim>\<open>format_breakdown\<close> reads with \<^verbatim>\<open>.get(key, default)\<close>: every key may be
  absent. A present value has the type \<^verbatim>\<open>calculate_tiered_bill\<close> gives it.
\<close>

record item_dict =
  tier_key :: "int option"
  kwh_key :: "real option"
  rate_key :: "real option"
  cost_key :: "real option"

record result_dict =
  breakdown_key :: "item_dict list option"
  energy_cost_key :: "real option"
  fixed_fee_key :: "real option"
  total_key :: "real option"

definition as_dict :: "TierBreakdown \<Rightarrow> item_dict" where
  "as_dict t = \<lparr>tier_key = Some (int (tier_index t)), kwh_key = Some (kwh t),
                rate_key = Some (rate t), cost_key = Some (cost t)\<rparr>"

text \<open>The dict \<^verbatim>\<open>calculate_tiered_bill\<close> returns, as \<^verbatim>\<open>format_breakdown\<close> receives it.\<close>

definition bill_dict :: "bill \<Rightarrow> result_dict" where
  "bill_dict b = \<lparr>breakdown_key = Some (map as_dict (breakdown b)),
                  energy_cost_key = Some (energy_cost b),
                  fixed_fee_key = Some (fixed_fee b),
                  total_key = Some (total b)\<rparr>"

text \<open>The two characters between \<^verbatim>\<open>kWh\<close> and the rate in the source's literal, in
  UTF-8: U+00C3 (bytes C3 83) and U+2014 (bytes E2 80 94).\<close>

definition times_literal :: string where
  "times_literal = [CHR 0xC3, CHR 0x83, CHR 0xE2, CHR 0x80, CHR 0x94]"

definition entry_line :: "string \<Rightarrow> item_dict \<Rightarrow> string" where
  "entry_line currency_symbol item =
     (let t = (case tier_key item of None \<Rightarrow> ''-'' | Some n \<Rightarrow> str_int n);
          k = (case kwh_key item of None \<Rightarrow> 0 | Some x \<Rightarrow> x);
          r = (case rate_key item of None \<Rightarrow> 0 | Some x \<Rightarrow> x);
          c = (case cost_key item of None \<Rightarrow> k * r | Some x \<Rightarrow> x)
      in ''  Tier '' @ t @ '': '' @ format_f False 3 k @ '' kWh '' @ times_literal @ '' ''
         @ format_currency r currency_symbol @ '' = '' @ format_currency c currency_symbol)"

definition format_breakdown :: "result_dict \<Rightarrow> string \<Rightarrow> string" where
  "format_breakdown result currency_symbol =
     (let get = (\<lambda>v. case v of None \<Rightarrow> 0 | Some x \<Rightarrow> x);
          lines = [''Breakdown:'']
            @ map (entry_line currency_symbol)
                (case breakdown_key result of None \<Rightarrow> [] | Some items \<Rightarrow> items)
            @ [[],
               ''Energy cost = '' @ format_currency (get (energy_cost_key result)) currency_symbol,
               ''Fixed fee   = '' @ format_currency (get (fixed_fee_key result)) currency_symbol,
               ''Total bill  = '' @ format_currency (get (total_key result)) currency_symbol]
      in join ''/n'' lines)"

subsection \<open>The engine in double arithmetic\<close>

text \<open>
  The same function with the roundings of the interpreter written out, for the
  statements that depend on them. A double is a real number here; \<open>double_round\<close> is
  the rounding of IEEE 754 binary64 to nearest, ties to even: 53 significant bits,
  and the fixed spacing \<open>2^-1074\<close> below \<open>2^-1022\<close>. The arguments are finite numbers
  (a \<^verbatim>\<open>float\<close> that is neither an infinity nor a NaN, or an \<^verbatim>\<open>int\<close>).

  \<^verbatim>\<open>float(x)\<close> is \<open>float_of_real x\<close>: the identity on a double, the nearest double of
  an \<^verbatim>\<open>int\<close>, and \<^verbatim>\<open>OverflowError\<close> for an \<^verbatim>\<open>int\<close> whose nearest double would be
  beyond the largest one. \<^verbatim>\<open>remaining -= block\<close> is the rounded difference (it cannot
  overflow: \<open>0 < block \<le> remaining\<close>); the literal \<^verbatim>\<open>1e-9\<close> is the double nearest to
  \<open>10^-9\<close>; the comparisons are exact, as they are in the interpreter.

  The product \<^verbatim>\<open>block * rate\<close>, the built-in \<^verbatim>\<open>sum\<close> and the addition
  \<^verbatim>\<open>energy_cost + fixed_fee\<close> are the interpreter's and are the parameters \<open>fmul\<close>,
  \<open>fsum\<close> and \<open>fadd\<close>. The type of a cost is left open, since a product of doubles can
  be infinite; the product and the addition may raise (\<^verbatim>\<open>OverflowError\<close>, when the
  rate or the fee is an \<^verbatim>\<open>int\<close> too large for a double), the sum of a list of floats
  does not.
\<close>

text \<open>\<^verbatim>\<open>int.bit_length\<close>: the number of binary digits.\<close>

function bit_length :: "nat \<Rightarrow> nat" where
  "bit_length n = (if n = 0 then 0 else Suc (bit_length (n div 2)))"
  by pat_completeness auto
termination
  by (relation "measure id") auto

declare bit_length.simps [simp del]

text \<open>For \<open>0 < x\<close>, the \<open>e\<close> with \<open>2^e \<le> x < 2^(e+1)\<close>.\<close>

definition binary_exponent :: "real \<Rightarrow> int" where
  "binary_exponent x =
     (if 1 \<le> x then int (bit_length (nat \<lfloor>x\<rfloor>)) - 1
      else - int (bit_length (nat (\<lceil>1 / x\<rceil> - 1))))"

definition pow2 :: "int \<Rightarrow> real" where
  "pow2 k = (if 0 \<le> k then 2 ^ nat k else 1 / 2 ^ nat (- k))"

definition double_round :: "real \<Rightarrow> real" where
  "double_round x =
     (if x = 0 then 0
      else
        let u = pow2 (max (binary_exponent \<bar>x\<bar>) (- 1022) - 52)
        in sgn x * (of_int (round_half_even (\<bar>x\<bar> / u)) * u))"

text \<open>The largest double, \<^verbatim>\<open>sys.float_info.max\<close>.\<close>

definition max_double :: real where
  "max_double = (2 ^ 53 - 1) * 2 ^ 971"

definition float_of_real :: "real \<Rightarrow> error + real" where
  "float_of_real x =
     (if max_double < \<bar>double_round x\<bar> then Inl OverflowError else Inr (double_round x))"

record 'c TierBreakdown_d =
  tier_index_d :: nat
  kwh_d :: real
  rate_d :: real
  cost_d :: 'c

record 'c bill_d =
  breakdown_d :: "'c TierBreakdown_d list"
  energy_cost_d :: 'c
  fixed_fee_d :: real
  total_d :: 'c

fun walk_double ::
  "(real \<Rightarrow> real \<Rightarrow> error + 'c) \<Rightarrow> nat \<Rightarrow> real \<Rightarrow> 'c TierBreakdown_d list \<Rightarrow> tier list
     \<Rightarrow> error + real \<times> 'c TierBreakdown_d list" where
  "walk_double fmul idx remaining bd [] = Inr (remaining, bd)"
| "walk_double fmul idx remaining bd ((block_kwh, r) # ts) =
     (if remaining \<le> 0 then Inr (remaining, bd)
      else
        (case (case block_kwh of
                 None \<Rightarrow> Inr remaining
               | Some b \<Rightarrow> (case float_of_real b of
                             Inl e \<Rightarrow> Inl e
                           | Inr fb \<Rightarrow> Inr (min remaining fb))) of
           Inl e \<Rightarrow> Inl e
         | Inr block \<Rightarrow>
        (case fmul block r of
           Inl e \<Rightarrow> Inl e
         | Inr c \<Rightarrow>
             walk_double fmul (Suc idx) (double_round (remaining - block))
               (bd @ [\<lparr>tier_index_d = idx, kwh_d = block, rate_d = r, cost_d = c\<rparr>]) ts)))"

definition calculate_tiered_bill_double ::
  "(real \<Rightarrow> real \<Rightarrow> error + 'c) \<Rightarrow> ('c list \<Rightarrow> 'c) \<Rightarrow> ('c \<Rightarrow> real \<Rightarrow> error + 'c)
     \<Rightarrow> real \<Rightarrow> tier list \<Rightarrow> real \<Rightarrow> error + 'c bill_d" where
  "calculate_tiered_bill_double fmul fsum fadd consumption_kwh tier_list fee =
     (case validate_common consumption_kwh fee of
        Inl e \<Rightarrow> Inl e
      | Inr _ \<Rightarrow>
     (case validate_tier_list tier_list of
        Inl e \<Rightarrow> Inl e
      | Inr _ \<Rightarrow>
     (case float_of_real consumption_kwh of
        Inl e \<Rightarrow> Inl e
      | Inr start \<Rightarrow>
     (case walk_double fmul 1 start [] tier_list of
        Inl e \<Rightarrow> Inl e
      | Inr (remaining, bd) \<Rightarrow>
          if double_round (1 / 1000000000) < remaining
          then Inl (ValueError (overflow_message remaining))
          else
            let ec = fsum (map cost_d bd)
            in (case fadd ec fee of
                  Inl e \<Rightarrow> Inl e
                | Inr t \<Rightarrow>
                    Inr \<lparr>breakdown_d = bd, energy_cost_d = ec, fixed_fee_d = fee,
                         total_d = t\<rparr>)))))"

subsection \<open>Vocabulary of the properties\<close>

text \<open>The test \<^verbatim>\<open>t.startswith("[")\<close> on the stripped text: the JSON form is selected.\<close>

definition json_form :: "ustring \<Rightarrow> bool" where
  "json_form text = (strip text \<noteq> [] \<and> hd (strip text) = of_char CHR ''['')"

text \<open>The first character of a text that is not whitespace, if there is one.\<close>

definition first_visible :: "ustring \<Rightarrow> nat option" where
  "first_visible text = (case dropWhile isspace text of [] \<Rightarrow> None | ch # _ \<Rightarrow> Some ch)"

text \<open>A shorthand text written from its entries: \<^verbatim>\<open>size@rate\<close> pieces joined by commas.
  A component is plain when it holds neither separator.\<close>

definition plain :: "ustring \<Rightarrow> bool" where
  "plain s = (of_char CHR '','' \<notin> set s \<and> of_char CHR ''@'' \<notin> set s)"

definition shorthand_text :: "(ustring \<times> ustring) list \<Rightarrow> ustring" where
  "shorthand_text es = join (ustr '','') (map (\<lambda>e. fst e @ ustr ''@'' @ snd e) es)"

text \<open>What a size component reads as: the unlimited sentinel when, stripped, it is one of
  the three tokens; otherwise the number \<^verbatim>\<open>float\<close> reads from it as \<^verbatim>\<open>part.strip()\<close>
  leaves it; nothing if that is no number.\<close>

definition reads_size :: "(ustring \<Rightarrow> real option) \<Rightarrow> ustring \<Rightarrow> real option option" where
  "reads_size lit s =
     (if strip s \<in> {ustr ''*'', ustr ''None'', ustr ''null''} then Some None
      else map_option Some (lit (float_strip (lstrip s))))"



text \<open>
  A component as it is typed: a token with whitespace before and after it. A token
  holds neither separator and neither begins nor ends with whitespace. The size
  component is \<open>(lead, token, gap)\<close> and the rate component \<open>(gap, token, trail)\<close>: the
  lead and the trail are any whitespace of \<^verbatim>\<open>str.strip()\<close>, the gaps next to the \<open>@\<close>
  are whitespace that \<^verbatim>\<open>float\<close> drops as well.
\<close>

definition token :: "ustring \<Rightarrow> bool" where
  "token t = (plain t \<and> (t = [] \<or> (\<not> isspace (hd t) \<and> \<not> isspace (last t))))"

definition size_component :: "ustring \<times> ustring \<times> ustring \<Rightarrow> bool" where
  "size_component p =
     (case p of (lead, t, gap) \<Rightarrow> list_all isspace lead \<and> token t \<and> list_all float_space gap)"

definition rate_component :: "ustring \<times> ustring \<times> ustring \<Rightarrow> bool" where
  "rate_component p =
     (case p of (gap, t, trail) \<Rightarrow> list_all float_space gap \<and> token t \<and> list_all isspace trail)"

definition typed :: "ustring \<times> ustring \<times> ustring \<Rightarrow> ustring" where
  "typed p = (case p of (a, t, b) \<Rightarrow> a @ t @ b)"

definition token_of :: "ustring \<times> ustring \<times> ustring \<Rightarrow> ustring" where
  "token_of p = (case p of (a, t, b) \<Rightarrow> t)"

definition entry_text ::
  "(ustring \<times> ustring \<times> ustring) \<times> (ustring \<times> ustring \<times> ustring) \<Rightarrow> ustring" where
  "entry_text e = typed (fst e) @ ustr ''@'' @ typed (snd e)"

text \<open>What a size token stands for: the unlimited sentinel for \<open>*\<close>, \<open>None\<close> and \<open>null\<close>
  as typed, the number of a literal, nothing otherwise.\<close>

definition token_size :: "(ustring \<Rightarrow> real option) \<Rightarrow> ustring \<Rightarrow> real option option" where
  "token_size lit t =
     (if t \<in> {ustr ''*'', ustr ''None'', ustr ''null''} then Some None
      else map_option Some (lit t))"

text \<open>A tier that passes \<^verbatim>\<open>_validate_tier_list\<close>.\<close>

definition valid_tier :: "tier \<Rightarrow> bool" where
  "valid_tier t = (0 \<le> snd t \<and> (case fst t of None \<Rightarrow> True | Some b \<Rightarrow> 0 < b))"

text \<open>Consumption within the total capacity of the tiers: unbounded as soon as one
  tier is unlimited, the sum of the block sizes otherwise.\<close>

definition within_capacity :: "real \<Rightarrow> tier list \<Rightarrow> bool" where
  "within_capacity c ts =
     (list_ex (\<lambda>t. fst t = None) ts \<or> c \<le> sum_list (map (\<lambda>t. the (fst t)) ts))"


text \<open>Reading a digit string back: the number a reader of the text sees.\<close>

definition digit_val :: "char \<Rightarrow> nat" where
  "digit_val ch = of_char ch - 48"

definition nat_of_digits :: "string \<Rightarrow> nat" where
  "nat_of_digits s = foldl (\<lambda>a ch. 10 * a + digit_val ch) 0 s"

text \<open>A double: a number that its own rounding leaves alone, within the range.\<close>

definition is_double :: "real \<Rightarrow> bool" where
  "is_double x = (double_round x = x \<and> \<bar>x\<bar> \<le> max_double)"

text \<open>No rounding on the way: the block sizes the walk reads are doubles and every
  difference it forms is one.\<close>

fun exact_walk :: "real \<Rightarrow> tier list \<Rightarrow> bool" where
  "exact_walk remaining [] = True"
| "exact_walk remaining ((block_kwh, r) # ts) =
     (if remaining \<le> 0 then True
      else (case block_kwh of
              None \<Rightarrow> True
            | Some b \<Rightarrow>
                is_double b
                \<and> double_round (remaining - min remaining b) = remaining - min remaining b
                \<and> exact_walk (remaining - min remaining b) ts))"

text \<open>The interpreter's operations do not raise: the product of a double with a rate
  of the list, and the addition of the fee to a cost.\<close>

definition operations_defined ::
  "(real \<Rightarrow> real \<Rightarrow> error + 'c) \<Rightarrow> ('c \<Rightarrow> real \<Rightarrow> error + 'c) \<Rightarrow> tier list \<Rightarrow> real \<Rightarrow> bool" where
  "operations_defined fmul fadd ts fee =
     ((\<forall>x. \<forall>t \<in> set ts. is_double x \<longrightarrow> (\<exists>y. fmul x (snd t) = Inr y))
      \<and> (\<forall>y. \<exists>z. fadd y fee = Inr z))"

text \<open>Whole numbers of kWh below \<open>2^53\<close>: for them no step of the walk is rounded.\<close>

definition whole_kwh :: "real \<Rightarrow> bool" where
  "whole_kwh x = (0 \<le> x \<and> x < 2 ^ 53 \<and> of_int \<lfloor>x\<rfloor> = x)"

definition whole_blocks :: "tier list \<Rightarrow> bool" where
  "whole_blocks ts = list_all (\<lambda>t. case fst t of None \<Rightarrow> True | Some b \<Rightarrow> whole_kwh b) ts"

text \<open>
  An instance of the literal grammar for the examples: the plain decimal literals
  \<^verbatim>\<open>digits\<close>, \<^verbatim>\<open>digits.digits\<close>, \<^verbatim>\<open>digits.\<close> and \<^verbatim>\<open>.digits\<close>, which \<^verbatim>\<open>float\<close> reads
  as the number they denote.
\<close>

definition is_digit :: "nat \<Rightarrow> bool" where
  "is_digit n = (48 \<le> n \<and> n \<le> 57)"

definition digits_value :: "ustring \<Rightarrow> nat" where
  "digits_value s = foldl (\<lambda>a d. 10 * a + (d - 48)) 0 s"

definition decimal_literal :: "ustring \<Rightarrow> real option" where
  "decimal_literal s =
     (let ip = takeWhile is_digit s; rest = dropWhile is_digit s
      in if rest = [] then (if ip = [] then None else Some (real (digits_value ip)))
         else if hd rest = of_char CHR ''.'' \<and> list_all is_digit (tl rest)
                 \<and> (ip \<noteq> [] \<or> tl rest \<noteq> [])
         then Some (real (digits_value (ip @ tl rest)) / 10 ^ length (tl rest))
         else None)"

section \<open>Properties\<close>

subsection \<open>Digits and the fixed-point format\<close>

lemma replicate_numeral_unfold:
  "replicate (numeral k) x = x # replicate (numeral k - 1) x"
  by (simp add: numeral_eq_Suc)

lemmas format_eval =
  format_f_def round_half_even_def str_nat.simps digit_char_def group3.simps
  zero_pad_def replicate_numeral_unfold

lemma digit_char_cases:
  "digit_char d \<in> set ''0123456789'' \<and> digit_val (digit_char d) = d mod 10"
proof -
  have "d mod 10 < 10" by simp
  then have "d mod 10 = 0 \<or> d mod 10 = 1 \<or> d mod 10 = 2 \<or> d mod 10 = 3
      \<or> d mod 10 = 4 \<or> d mod 10 = 5 \<or> d mod 10 = 6 \<or> d mod 10 = 7
      \<or> d mod 10 = 8 \<or> d mod 10 = 9"
    by arith
  then show ?thesis
    unfolding digit_char_def digit_val_def by (elim disjE) simp_all
qed


lemma nat_of_digits_snoc:
  "nat_of_digits (s @ [ch]) = 10 * nat_of_digits s + digit_val ch"
  by (simp add: nat_of_digits_def)


lemma nat_of_digits_str_nat: "nat_of_digits (str_nat n) = n"
proof (induction n rule: str_nat.induct)
  case (1 n)
  show ?case
  proof (cases "n < 10")
    case True
    then show ?thesis
      using digit_char_cases [of n]
      by (subst str_nat.simps) (simp add: nat_of_digits_def)
  next
    case False
    with 1 show ?thesis
      using digit_char_cases [of n]
      by (subst str_nat.simps) (simp add: nat_of_digits_snoc)
  qed
qed







subsection \<open>The walk over the tiers\<close>

lemma py_sum_eq: "py_sum xs = sum_list xs"
proof -
  have "foldl (+) a xs = a + sum_list xs" for a :: real
    by (induction xs arbitrary: a) (simp_all add: algebra_simps)
  from this [of 0] show ?thesis by (simp add: py_sum_def)
qed

text \<open>The accumulator only collects: the walk can be read with an empty one.\<close>

lemma walk_acc:
  "walk idx rem bd ts = (fst (walk idx rem [] ts), bd @ snd (walk idx rem [] ts))"
proof (induction ts arbitrary: idx rem bd)
  case Nil
  show ?case by simp
next
  case (Cons t ts)
  obtain b r where t: "t = (b, r)" by (cases t)
  show ?case
  proof (cases "rem \<le> 0")
    case True
    then show ?thesis by (simp add: t)
  next
    case False
    define block where "block = (case b of None \<Rightarrow> rem | Some x \<Rightarrow> min rem x)"
    define e where "e = \<lparr>tier_index = idx, kwh = block, rate = r, cost = block * r\<rparr>"
    have "walk idx rem bd (t # ts) = walk (Suc idx) (rem - block) (bd @ [e]) ts"
      using False by (simp add: t block_def e_def Let_def)
    moreover have "walk idx rem [] (t # ts) = walk (Suc idx) (rem - block) [e] ts"
      using False by (simp add: t block_def e_def Let_def)
    ultimately show ?thesis
      using Cons.IH [of "Suc idx" "rem - block" "bd @ [e]"]
            Cons.IH [of "Suc idx" "rem - block" "[e]"]
      by simp
  qed
qed

lemma walk_break: "rem \<le> 0 \<Longrightarrow> walk idx rem [] ts = (rem, [])"
  by (cases ts) auto

lemma walk_step:
  assumes "0 < rem"
  shows "walk idx rem [] ((b, r) # ts) =
     (let block = (case b of None \<Rightarrow> rem | Some x \<Rightarrow> min rem x)
      in (fst (walk (Suc idx) (rem - block) [] ts),
          \<lparr>tier_index = idx, kwh = block, rate = r, cost = block * r\<rparr>
            # snd (walk (Suc idx) (rem - block) [] ts)))"
proof -
  define block where "block = (case b of None \<Rightarrow> rem | Some x \<Rightarrow> min rem x)"
  define e where "e = \<lparr>tier_index = idx, kwh = block, rate = r, cost = block * r\<rparr>"
  have "walk idx rem [] ((b, r) # ts) = walk (Suc idx) (rem - block) [e] ts"
    using assms by (simp add: block_def e_def Let_def)
  also have "\<dots> = (fst (walk (Suc idx) (rem - block) [] ts),
                     [e] @ snd (walk (Suc idx) (rem - block) [] ts))"
    by (rule walk_acc)
  finally show ?thesis by (simp add: block_def e_def Let_def)
qed


lemma walk_remaining:
  "fst (walk idx rem [] ts) = rem - sum_list (map kwh (snd (walk idx rem [] ts)))"
proof (induction ts arbitrary: idx rem)
  case Nil
  show ?case by simp
next
  case (Cons t ts)
  obtain b r where t: "t = (b, r)" by (cases t)
  show ?case
  proof (cases "rem \<le> 0")
    case True
    then show ?thesis by (simp add: walk_break)
  next
    case False
    then have pos: "0 < rem" by simp
    show ?thesis
      unfolding t walk_step [OF pos] Let_def
      using Cons.IH by simp
  qed
qed

lemma walk_remaining_nonneg:
  "0 \<le> rem \<Longrightarrow> 0 \<le> fst (walk idx rem [] ts)"
proof (induction ts arbitrary: idx rem)
  case Nil
  then show ?case by simp
next
  case (Cons t ts)
  obtain b r where t: "t = (b, r)" by (cases t)
  show ?case
  proof (cases "rem \<le> 0")
    case True
    with Cons.prems show ?thesis by (simp add: walk_break)
  next
    case False
    then have pos: "0 < rem" by simp
    have "0 \<le> rem - (case b of None \<Rightarrow> rem | Some x \<Rightarrow> min rem x)"
      by (cases b) auto
    from Cons.IH [OF this] show ?thesis
      unfolding t walk_step [OF pos] Let_def by simp
  qed
qed

lemma walk_within_capacity:
  "within_capacity rem ts \<Longrightarrow> fst (walk idx rem [] ts) \<le> 0"
proof (induction ts arbitrary: idx rem)
  case Nil
  then show ?case by (simp add: within_capacity_def)
next
  case (Cons t ts)
  obtain b r where t: "t = (b, r)" by (cases t)
  show ?case
  proof (cases "rem \<le> 0")
    case True
    then show ?thesis by (simp add: walk_break)
  next
    case False
    then have pos: "0 < rem" by simp
    show ?thesis
    proof (cases b)
      case None
      then show ?thesis
        unfolding t walk_step [OF pos] Let_def by (simp add: walk_break)
    next
      case (Some x)
      show ?thesis
      proof (cases "rem \<le> x")
        case True
        then show ?thesis
          unfolding t walk_step [OF pos] Let_def Some by (simp add: walk_break)
      next
        case False
        then have "within_capacity (rem - x) ts"
          using Cons.prems by (auto simp: within_capacity_def t Some)
        from Cons.IH [OF this] False show ?thesis
          unfolding t walk_step [OF pos] Let_def Some by (simp add: min_def)
      qed
    qed
  qed
qed





subsection \<open>Validation\<close>

lemma validate_tiers_from_ok:
  "validate_tiers_from i ts = Inr () \<longleftrightarrow> list_all valid_tier ts"
  by (induction i ts rule: validate_tiers_from.induct)
     (auto simp: valid_tier_def split: option.splits)

lemma validate_tiers_from_rate:
  assumes "k < length ts" "list_all valid_tier (take k ts)" "snd (ts ! k) < 0"
  shows "validate_tiers_from i ts =
           Inl (ValueError (''rate for tier '' @ str_nat (i + k) @ '' must be >= 0''))"
  using assms
proof (induction ts arbitrary: i k)
  case Nil
  then show ?case by simp
next
  case (Cons t ts)
  obtain b r where t: "t = (b, r)" by (cases t)
  show ?case
  proof (cases k)
    case 0
    with Cons.prems show ?thesis by (simp add: t)
  next
    case (Suc k')
    with Cons.prems have "valid_tier (b, r)" "k' < length ts"
      "list_all valid_tier (take k' ts)" "snd (ts ! k') < 0"
      by (simp_all add: t)
    from Cons.IH [OF this(2-4), of "Suc i"] this(1) show ?thesis
      by (auto simp: t Suc valid_tier_def split: option.splits)
  qed
qed

lemma validate_tiers_from_block:
  assumes "k < length ts" "list_all valid_tier (take k ts)"
    "0 \<le> snd (ts ! k)" "fst (ts ! k) = Some x" "x \<le> 0"
  shows "validate_tiers_from i ts =
           Inl (ValueError (''block_kwh for tier '' @ str_nat (i + k)
                              @ '' must be > 0 or None for unlimited''))"
  using assms
proof (induction ts arbitrary: i k)
  case Nil
  then show ?case by simp
next
  case (Cons t ts)
  obtain b r where t: "t = (b, r)" by (cases t)
  show ?case
  proof (cases k)
    case 0
    with Cons.prems show ?thesis by (simp add: t)
  next
    case (Suc k')
    with Cons.prems have "valid_tier (b, r)" "k' < length ts"
      "list_all valid_tier (take k' ts)" "0 \<le> snd (ts ! k')" "fst (ts ! k') = Some x"
      by (simp_all add: t)
    from Cons.IH [OF this(2-5) \<open>x \<le> 0\<close>, of "Suc i"] this(1) show ?thesis
      by (auto simp: t Suc valid_tier_def split: option.splits)
  qed
qed

lemma validate_tier_list_ok:
  "validate_tier_list ts = Inr () \<longleftrightarrow> ts \<noteq> [] \<and> list_all valid_tier ts"
  by (simp add: validate_tier_list_def validate_tiers_from_ok)

lemma validate_common_ok:
  "validate_common c fee = Inr () \<longleftrightarrow> 0 \<le> c \<and> 0 \<le> fee"
  by (simp add: validate_common_def)

lemma calculate_validated:
  assumes "0 \<le> c" "0 \<le> fee" "ts \<noteq> []" "list_all valid_tier ts"
  shows "calculate_tiered_bill c ts fee =
     (if 1 / 1000000000 < fst (walk 1 c [] ts)
      then Inl (ValueError (overflow_message (fst (walk 1 c [] ts))))
      else Inr \<lparr>breakdown = snd (walk 1 c [] ts),
                 energy_cost = sum_list (map cost (snd (walk 1 c [] ts))),
                 fixed_fee = fee,
                 total = sum_list (map cost (snd (walk 1 c [] ts))) + fee\<rparr>)"
proof -
  have "validate_common c fee = Inr ()" "validate_tier_list ts = Inr ()"
    using assms by (simp_all add: validate_common_ok validate_tier_list_ok)
  then show ?thesis
    by (simp add: calculate_tiered_bill_def py_sum_eq Let_def split: prod.splits)
qed


subsection \<open>Fixed-rate calculator\<close>

text \<open>
  Claim C9. For non-negative inputs \<open>fixed_rate_bill\<close> returns exactly
  \<open>total_usage * rate + fixed_fee\<close>, so 85 at (300, 0.25, 10); if any of the three
  inputs is negative it raises the one \<open>ValueError\<close> "Inputs must be non-negative.",
  the same whichever input is at fault.
\<close>

theorem fixed_rate_bill_spec:
  "(0 \<le> u \<and> 0 \<le> r \<and> 0 \<le> f \<longrightarrow> fixed_rate_bill u r f = Inr (u * r + f))
   \<and> (u < 0 \<or> r < 0 \<or> f < 0 \<longrightarrow>
        fixed_rate_bill u r f = Inl (ValueError ''Inputs must be non-negative.''))
   \<and> fixed_rate_bill 300 (25 / 100) 10 = Inr 85"
  by (auto simp: fixed_rate_bill_def)

theorem fixed_rate_bill_spec_witness:
  "fixed_rate_bill 100 (2 / 10) 10 = Inr 30
   \<and> fixed_rate_bill (- 1) (25 / 100) 10 = Inl (ValueError ''Inputs must be non-negative.'')
   \<and> fixed_rate_bill 100 (- (25 / 100)) 10 = Inl (ValueError ''Inputs must be non-negative.'')
   \<and> fixed_rate_bill 100 (25 / 100) (- 10) = Inl (ValueError ''Inputs must be non-negative.'')"
  using fixed_rate_bill_spec [of 100 "2 / 10" 10]
        fixed_rate_bill_spec [of "- 1" "25 / 100" 10]
        fixed_rate_bill_spec [of 100 "- (25 / 100)" 10]
        fixed_rate_bill_spec [of 100 "25 / 100" "- 10"]
  by simp

subsection \<open>Tiered bill engine\<close>



text \<open>
  Claim C3. The checks run in this order and the first failing one decides the
  error: \<open>consumption_kwh >= 0\<close>, \<open>fixed_fee >= 0\<close>, a non-empty tier list, then tier
  by tier the rate and, for a finite block, the block size; the message of a
  per-tier check holds the 1-based index of the tier, in decimal. When every check
  passes the outcome is that of the walk: a bill or the overflow error.
\<close>

theorem validation_order:
  "(c < 0 \<longrightarrow>
      calculate_tiered_bill c ts fee = Inl (ValueError ''consumption_kwh must be >= 0''))
   \<and> (0 \<le> c \<and> fee < 0 \<longrightarrow>
      calculate_tiered_bill c ts fee = Inl (ValueError ''fixed_fee must be >= 0''))
   \<and> (0 \<le> c \<and> 0 \<le> fee \<and> ts = [] \<longrightarrow>
      calculate_tiered_bill c ts fee = Inl (ValueError ''tiers must be a non-empty list''))
   \<and> (0 \<le> c \<and> 0 \<le> fee \<and> k < length ts \<and> list_all valid_tier (take k ts)
        \<and> snd (ts ! k) < 0 \<longrightarrow>
      calculate_tiered_bill c ts fee
        = Inl (ValueError (''rate for tier '' @ str_nat (Suc k) @ '' must be >= 0'')))
   \<and> (0 \<le> c \<and> 0 \<le> fee \<and> k < length ts \<and> list_all valid_tier (take k ts)
        \<and> 0 \<le> snd (ts ! k) \<and> fst (ts ! k) = Some x \<and> x \<le> 0 \<longrightarrow>
      calculate_tiered_bill c ts fee
        = Inl (ValueError (''block_kwh for tier '' @ str_nat (Suc k)
                             @ '' must be > 0 or None for unlimited'')))
   \<and> nat_of_digits (str_nat (Suc k)) = Suc k
   \<and> (0 \<le> c \<and> 0 \<le> fee \<and> ts \<noteq> [] \<and> list_all valid_tier ts \<longrightarrow>
      (\<exists>b. calculate_tiered_bill c ts fee = Inr b)
      \<or> calculate_tiered_bill c ts fee
          = Inl (ValueError (overflow_message (fst (walk 1 c [] ts)))))"
proof (intro conjI impI)
  assume "c < 0"
  then show "calculate_tiered_bill c ts fee = Inl (ValueError ''consumption_kwh must be >= 0'')"
    by (simp add: calculate_tiered_bill_def validate_common_def)
next
  assume "0 \<le> c \<and> fee < 0"
  then show "calculate_tiered_bill c ts fee = Inl (ValueError ''fixed_fee must be >= 0'')"
    by (simp add: calculate_tiered_bill_def validate_common_def)
next
  assume "0 \<le> c \<and> 0 \<le> fee \<and> ts = []"
  then show "calculate_tiered_bill c ts fee = Inl (ValueError ''tiers must be a non-empty list'')"
    by (simp add: calculate_tiered_bill_def validate_common_def validate_tier_list_def)
next
  assume a: "0 \<le> c \<and> 0 \<le> fee \<and> k < length ts \<and> list_all valid_tier (take k ts)
        \<and> snd (ts ! k) < 0"
  then have "ts \<noteq> []" by auto
  with a validate_tiers_from_rate [of k ts 1]
  show "calculate_tiered_bill c ts fee
        = Inl (ValueError (''rate for tier '' @ str_nat (Suc k) @ '' must be >= 0''))"
    by (simp add: calculate_tiered_bill_def validate_common_def validate_tier_list_def)
next
  assume a: "0 \<le> c \<and> 0 \<le> fee \<and> k < length ts \<and> list_all valid_tier (take k ts)
        \<and> 0 \<le> snd (ts ! k) \<and> fst (ts ! k) = Some x \<and> x \<le> 0"
  then have "ts \<noteq> []" by auto
  with a validate_tiers_from_block [of k ts x 1]
  show "calculate_tiered_bill c ts fee
        = Inl (ValueError (''block_kwh for tier '' @ str_nat (Suc k)
                             @ '' must be > 0 or None for unlimited''))"
    by (simp add: calculate_tiered_bill_def validate_common_def validate_tier_list_def)
next
  show "nat_of_digits (str_nat (Suc k)) = Suc k" by (rule nat_of_digits_str_nat)
next
  assume "0 \<le> c \<and> 0 \<le> fee \<and> ts \<noteq> [] \<and> list_all valid_tier ts"
  then have v: "0 \<le> c" "0 \<le> fee" "ts \<noteq> []" "list_all valid_tier ts" by simp_all
  show "(\<exists>b. calculate_tiered_bill c ts fee = Inr b)
      \<or> calculate_tiered_bill c ts fee
          = Inl (ValueError (overflow_message (fst (walk 1 c [] ts))))"
    unfolding calculate_validated [OF v] by simp
qed

theorem validation_order_witness:
  "calculate_tiered_bill (- 1) [] (- 1) = Inl (ValueError ''consumption_kwh must be >= 0'')
   \<and> calculate_tiered_bill 1 [] (- 1) = Inl (ValueError ''fixed_fee must be >= 0'')
   \<and> calculate_tiered_bill 1 [] 0 = Inl (ValueError ''tiers must be a non-empty list'')
   \<and> calculate_tiered_bill 1 [(Some 100, 2 / 10), (Some 0, - 1)] 0
       = Inl (ValueError ''rate for tier 2 must be >= 0'')
   \<and> calculate_tiered_bill 1 [(Some 0, 2 / 10), (None, - 1)] 0
       = Inl (ValueError ''block_kwh for tier 1 must be > 0 or None for unlimited'')
   \<and> calculate_tiered_bill 1 [(None, 2 / 10)] 0
       = Inr \<lparr>breakdown = [\<lparr>tier_index = 1, kwh = 1, rate = 2 / 10, cost = 2 / 10\<rparr>],
              energy_cost = 2 / 10, fixed_fee = 0, total = 2 / 10\<rparr>"
proof -
  have s1: "str_nat (Suc 0) = ''1''" and s2: "str_nat (Suc (Suc 0)) = ''2''"
    by (simp_all add: str_nat.simps digit_char_def)
  have a: "calculate_tiered_bill (- 1) [] (- 1) = Inl (ValueError ''consumption_kwh must be >= 0'')"
    using validation_order [of "- 1" "[]" "- 1"] by simp
  have b: "calculate_tiered_bill 1 [] (- 1) = Inl (ValueError ''fixed_fee must be >= 0'')"
    using validation_order [of 1 "[]" "- 1"] by simp
  have c: "calculate_tiered_bill 1 [] 0 = Inl (ValueError ''tiers must be a non-empty list'')"
    using validation_order [of 1 "[]" 0] by simp
  have d: "calculate_tiered_bill 1 [(Some 100, 2 / 10), (Some 0, - 1)] 0
       = Inl (ValueError ''rate for tier 2 must be >= 0'')"
    using validation_order [of 1 "[(Some 100, 2 / 10), (Some 0, - 1)]" 0 1]
    by (simp add: valid_tier_def s2)
  have e: "calculate_tiered_bill 1 [(Some 0, 2 / 10), (None, - 1)] 0
       = Inl (ValueError ''block_kwh for tier 1 must be > 0 or None for unlimited'')"
    using validation_order [of 1 "[(Some 0, 2 / 10), (None, - 1)]" 0 0 0]
    by (simp add: s1)
  have f: "calculate_tiered_bill 1 [(None, 2 / 10)] 0
       = Inr \<lparr>breakdown = [\<lparr>tier_index = 1, kwh = 1, rate = 2 / 10, cost = 2 / 10\<rparr>],
              energy_cost = 2 / 10, fixed_fee = 0, total = 2 / 10\<rparr>"
    by (simp add: calculate_tiered_bill_def validate_common_def validate_tier_list_def py_sum_def Let_def)
  from a b c d e f show ?thesis by simp
qed



text \<open>
  Claim C5. With consumption 0, a valid tier list and a non-negative fixed fee the
  call succeeds: the breakdown is empty, \<open>energy_cost\<close> is 0 and \<open>total\<close> is the
  fixed fee.
\<close>

theorem zero_consumption:
  "0 \<le> fee \<and> validate_tier_list ts = Inr () \<longrightarrow>
     calculate_tiered_bill 0 ts fee
       = Inr \<lparr>breakdown = [], energy_cost = 0, fixed_fee = fee, total = fee\<rparr>"
proof
  assume a: "0 \<le> fee \<and> validate_tier_list ts = Inr ()"
  then have v: "(0::real) \<le> 0" "0 \<le> fee" "ts \<noteq> []" "list_all valid_tier ts"
    by (simp_all add: validate_tier_list_ok)
  show "calculate_tiered_bill 0 ts fee
       = Inr \<lparr>breakdown = [], energy_cost = 0, fixed_fee = fee, total = fee\<rparr>"
    unfolding calculate_validated [OF v] by (simp add: walk_break)
qed

theorem zero_consumption_witness:
  "validate_tier_list [(Some 100, 2 / 10), (None, 3 / 10)] = Inr ()
   \<and> calculate_tiered_bill 0 [(Some 100, 2 / 10), (None, 3 / 10)] 5
       = Inr \<lparr>breakdown = [], energy_cost = 0, fixed_fee = 5, total = 5\<rparr>"
proof -
  have v: "validate_tier_list [(Some 100, 2 / 10), (None, 3 / 10)] = Inr ()"
    by (simp add: validate_tier_list_def)
  from zero_consumption [of 5 "[(Some 100, 2 / 10), (None, 3 / 10)]"] v
  show ?thesis by simp
qed



subsection \<open>The engine in double arithmetic\<close>

lemmas double_eval =
  double_round_def binary_exponent_def pow2_def bit_length.simps round_half_even_def

lemma double_round_zero: "double_round 0 = 0"
  by (simp add: double_round_def)

lemma double_1e_9: "double_round (1 / 1000000000) = 4835703278458517 / 2 ^ 82"
  by (simp add: double_eval)

lemma float_of_real_double: "is_double x \<Longrightarrow> float_of_real x = Inr x"
  by (simp add: is_double_def float_of_real_def)

lemma walk_double_acc:
  "walk_double fmul idx rem bd ts
     = (case walk_double fmul idx rem [] ts of
          Inl e \<Rightarrow> Inl e
        | Inr p \<Rightarrow> Inr (fst p, bd @ snd p))"
proof (induction ts arbitrary: idx rem bd)
  case Nil
  show ?case by simp
next
  case (Cons t ts)
  obtain b r where t: "t = (b, r)" by (cases t)
  show ?case
  proof (cases "rem \<le> 0")
    case True
    then show ?thesis by (simp add: t)
  next
    case False
    show ?thesis
    proof (cases "case b of None \<Rightarrow> Inr rem
                  | Some x \<Rightarrow> (case float_of_real x of
                                Inl e \<Rightarrow> Inl e
                              | Inr fb \<Rightarrow> Inr (min rem fb))")
      case (Inl e)
      with False show ?thesis by (simp add: t)
    next
      case (Inr block)
      show ?thesis
      proof (cases "fmul block r")
        case (Inl e)
        with False Inr show ?thesis by (simp add: t)
      next
        case c: (Inr c)
        define e where
          "e = \<lparr>tier_index_d = idx, kwh_d = block, rate_d = r, cost_d = c\<rparr>"
        have 1: "walk_double fmul idx rem bd (t # ts)
            = walk_double fmul (Suc idx) (double_round (rem - block)) (bd @ [e]) ts"
          using False Inr c by (simp add: t e_def)
        have 2: "walk_double fmul idx rem [] (t # ts)
            = walk_double fmul (Suc idx) (double_round (rem - block)) [e] ts"
          using False Inr c by (simp add: t e_def)
        show ?thesis
          unfolding 1 2
          using Cons.IH [of "Suc idx" "double_round (rem - block)" "bd @ [e]"]
                Cons.IH [of "Suc idx" "double_round (rem - block)" "[e]"]
          by (simp split: sum.splits)
      qed
    qed
  qed
qed

lemma walk_double_break: "rem \<le> 0 \<Longrightarrow> walk_double fmul idx rem [] ts = Inr (rem, [])"
  by (cases ts) auto

lemma walk_double_step:
  assumes "0 < rem"
    and "(case b of None \<Rightarrow> Inr rem
          | Some x \<Rightarrow> (case float_of_real x of
                        Inl e \<Rightarrow> Inl e
                      | Inr fb \<Rightarrow> Inr (min rem fb))) = Inr block"
  shows "walk_double fmul idx rem [] ((b, r) # ts) =
     (case fmul block r of
        Inl e \<Rightarrow> Inl e
      | Inr c \<Rightarrow>
          (case walk_double fmul (Suc idx) (double_round (rem - block)) [] ts of
             Inl e \<Rightarrow> Inl e
           | Inr p \<Rightarrow>
               Inr (fst p,
                    \<lparr>tier_index_d = idx, kwh_d = block, rate_d = r, cost_d = c\<rparr> # snd p)))"
proof (cases "fmul block r")
  case (Inl e)
  with assms show ?thesis by simp
next
  case (Inr c)
  define e where
    "e = \<lparr>tier_index_d = idx, kwh_d = block, rate_d = r, cost_d = c\<rparr>"
  have step: "walk_double fmul idx rem [] ((b, r) # ts)
      = walk_double fmul (Suc idx) (double_round (rem - block)) [e] ts"
    using assms Inr by (simp add: e_def)
  have acc: "walk_double fmul (Suc idx) (double_round (rem - block)) [e] ts
      = (case walk_double fmul (Suc idx) (double_round (rem - block)) [] ts of
           Inl e \<Rightarrow> Inl e
         | Inr p \<Rightarrow> Inr (fst p, [e] @ snd p))"
    by (rule walk_double_acc)
  have "walk_double fmul idx rem [] ((b, r) # ts)
      = (case walk_double fmul (Suc idx) (double_round (rem - block)) [] ts of
           Inl e \<Rightarrow> Inl e
         | Inr p \<Rightarrow> Inr (fst p, [e] @ snd p))"
    unfolding step acc ..
  then show ?thesis
    unfolding Inr e_def by (simp split: sum.splits)
qed

text \<open>Where nothing is rounded, a walk in doubles that returns is the walk in exact
  arithmetic.\<close>

lemma exact_walk_agrees:
  assumes "exact_walk rem ts" "walk_double fmul idx rem [] ts = Inr p"
  shows "fst p = fst (walk idx rem [] ts) \<and> map kwh_d (snd p) = map kwh (snd (walk idx rem [] ts))"
  using assms
proof (induction ts arbitrary: idx rem p)
  case Nil
  then show ?case by auto
next
  case (Cons t ts)
  obtain b r where t: "t = (b, r)" by (cases t)
  show ?case
  proof (cases "rem \<le> 0")
    case True
    with Cons.prems show ?thesis by (auto simp: walk_break walk_double_break)
  next
    case False
    then have pos: "0 < rem" by simp
    show ?thesis
    proof (cases b)
      case None
      have blk: "(case b of None \<Rightarrow> Inr rem
          | Some x \<Rightarrow> (case float_of_real x of
                        Inl e \<Rightarrow> Inl e
                      | Inr fb \<Rightarrow> Inr (min rem fb))) = Inr rem"
        by (simp add: None)
      from Cons.prems(2) show ?thesis
        unfolding t walk_step [OF pos] walk_double_step [OF pos blk] Let_def
        by (auto simp: None double_round_zero walk_break walk_double_break split: sum.splits)
    next
      case (Some x)
      with Cons.prems(1) False have x: "is_double x"
        and d: "double_round (rem - min rem x) = rem - min rem x"
        and e: "exact_walk (rem - min rem x) ts"
        by (simp_all add: t)
      have blk: "(case b of None \<Rightarrow> Inr rem
          | Some x \<Rightarrow> (case float_of_real x of
                        Inl e \<Rightarrow> Inl e
                      | Inr fb \<Rightarrow> Inr (min rem fb))) = Inr (min rem x)"
        by (simp add: Some float_of_real_double [OF x])
      from Cons.prems(2) obtain c q where
        q: "walk_double fmul (Suc idx) (rem - min rem x) [] ts = Inr q"
        and p: "p = (fst q, \<lparr>tier_index_d = idx, kwh_d = min rem x, rate_d = r, cost_d = c\<rparr> # snd q)"
        unfolding t walk_double_step [OF pos blk] d
        by (auto split: sum.splits)
      from Cons.IH [OF e q] show ?thesis
        unfolding t walk_step [OF pos] Let_def p Some
        by simp
    qed
  qed
qed

text \<open>Where nothing is rounded and no product raises, the walk in doubles returns.\<close>

lemma exact_walk_returns:
  assumes "exact_walk rem ts" "is_double rem"
    and "\<forall>x. \<forall>t \<in> set ts. is_double x \<longrightarrow> (\<exists>y. fmul x (snd t) = Inr y)"
    and "list_all valid_tier ts"
  shows "\<exists>p. walk_double fmul idx rem [] ts = Inr p"
  using assms
proof (induction ts arbitrary: idx rem)
  case Nil
  show ?case by simp
next
  case (Cons t ts)
  obtain b r where t: "t = (b, r)" by (cases t)
  from Cons.prems(4) have vs: "list_all valid_tier ts" and vt: "valid_tier (b, r)"
    by (simp_all add: t)
  from Cons.prems(3) have ops: "\<forall>x. \<forall>t \<in> set ts. is_double x \<longrightarrow> (\<exists>y. fmul x (snd t) = Inr y)"
    and op: "\<And>x. is_double x \<Longrightarrow> \<exists>y. fmul x r = Inr y"
    by (auto simp: t)
  show ?case
  proof (cases "rem \<le> 0")
    case True
    then show ?thesis by (simp add: walk_double_break)
  next
    case False
    then have pos: "0 < rem" by simp
    show ?thesis
    proof (cases b)
      case None
      have blk: "(case b of None \<Rightarrow> Inr rem
          | Some x \<Rightarrow> (case float_of_real x of
                        Inl e \<Rightarrow> Inl e
                      | Inr fb \<Rightarrow> Inr (min rem fb))) = Inr rem"
        by (simp add: None)
      from op [OF Cons.prems(2)] obtain y where "fmul rem r = Inr y" ..
      then show ?thesis
        unfolding t walk_double_step [OF pos blk]
        by (simp add: double_round_zero walk_double_break)
    next
      case (Some x)
      with Cons.prems(1) False have x: "is_double x"
        and d: "double_round (rem - min rem x) = rem - min rem x"
        and e: "exact_walk (rem - min rem x) ts"
        by (simp_all add: t)
      have blk: "(case b of None \<Rightarrow> Inr rem
          | Some x \<Rightarrow> (case float_of_real x of
                        Inl e \<Rightarrow> Inl e
                      | Inr fb \<Rightarrow> Inr (min rem fb))) = Inr (min rem x)"
        by (simp add: Some float_of_real_double [OF x])
      have m: "is_double (min rem x)"
        using x Cons.prems(2) by (simp add: min_def)
      from vt have "0 < x" by (simp add: valid_tier_def Some)
      then have nx: "is_double (rem - min rem x)"
        using d Cons.prems(2) pos by (auto simp: is_double_def min_def)
      from op [OF m] obtain y where y: "fmul (min rem x) r = Inr y" ..
      from Cons.IH [OF e nx ops vs, of "Suc idx"] obtain q where
        "walk_double fmul (Suc idx) (rem - min rem x) [] ts = Inr q" ..
      then show ?thesis
        unfolding t walk_double_step [OF pos blk] d
        by (simp add: y)
    qed
  qed
qed

lemma calculate_double_success:
  assumes "calculate_tiered_bill_double fmul fsum fadd c ts fee = Inr b"
  shows "\<exists>start p. 0 \<le> c \<and> 0 \<le> fee \<and> ts \<noteq> [] \<and> list_all valid_tier ts
     \<and> float_of_real c = Inr start
     \<and> walk_double fmul 1 start [] ts = Inr p
     \<and> fst p \<le> double_round (1 / 1000000000)
     \<and> breakdown_d b = snd p
     \<and> energy_cost_d b = fsum (map cost_d (snd p))
     \<and> fixed_fee_d b = fee
     \<and> fadd (energy_cost_d b) fee = Inr (total_d b)"
proof -
  from assms have vc: "validate_common c fee = Inr ()"
    by (cases "validate_common c fee") (auto simp: calculate_tiered_bill_double_def)
  from assms vc have vt: "validate_tier_list ts = Inr ()"
    by (cases "validate_tier_list ts") (auto simp: calculate_tiered_bill_double_def)
  from vc vt have v: "0 \<le> c" "0 \<le> fee" "ts \<noteq> []" "list_all valid_tier ts"
    by (simp_all add: validate_common_ok validate_tier_list_ok)
  from assms vc vt obtain start where s: "float_of_real c = Inr start"
    by (cases "float_of_real c") (auto simp: calculate_tiered_bill_double_def)
  from assms vc vt s obtain p where p: "walk_double fmul 1 start [] ts = Inr p"
    by (cases "walk_double fmul 1 start [] ts") (auto simp: calculate_tiered_bill_double_def)
  from assms vc vt s p
  have "fst p \<le> double_round (1 / 1000000000)
     \<and> breakdown_d b = snd p
     \<and> energy_cost_d b = fsum (map cost_d (snd p))
     \<and> fixed_fee_d b = fee
     \<and> fadd (energy_cost_d b) fee = Inr (total_d b)"
    by (cases p)
       (auto simp: calculate_tiered_bill_double_def Let_def split: if_splits sum.splits)
  with v s p show ?thesis by blast
qed

lemma calculate_double_returns:
  assumes "0 \<le> c" "0 \<le> fee" "validate_tier_list ts = Inr ()"
    and "float_of_real c = Inr start" "walk_double fmul 1 start [] ts = Inr p"
    and "fst p \<le> double_round (1 / 1000000000)"
    and "fadd (fsum (map cost_d (snd p))) fee = Inr t"
  shows "calculate_tiered_bill_double fmul fsum fadd c ts fee
     = Inr \<lparr>breakdown_d = snd p, energy_cost_d = fsum (map cost_d (snd p)),
            fixed_fee_d = fee, total_d = t\<rparr>"
proof -
  have "validate_common c fee = Inr ()"
    using assms(1,2) by (simp add: validate_common_ok)
  with assms show ?thesis
    by (cases p) (simp add: calculate_tiered_bill_double_def Let_def)
qed

lemma bit_length_bound: "n < 2 ^ k \<Longrightarrow> bit_length n \<le> k"
proof (induction k arbitrary: n)
  case 0
  then show ?case by (simp add: bit_length.simps)
next
  case (Suc k)
  show ?case
  proof (cases "n = 0")
    case True
    then show ?thesis by (simp add: bit_length.simps)
  next
    case False
    from Suc.prems have "n div 2 < 2 ^ k" by simp
    from Suc.IH [OF this] False show ?thesis
      by (subst bit_length.simps) simp
  qed
qed

lemma bit_length_pos: "0 < n \<Longrightarrow> 0 < bit_length n"
  by (subst bit_length.simps) simp

lemma round_half_even_of_int: "round_half_even (of_int z) = z"
  by (simp add: round_half_even_def Let_def)

text \<open>The whole numbers below \<open>2^53\<close> are doubles.\<close>

lemma double_round_of_nat:
  assumes "n < 2 ^ 53"
  shows "double_round (of_nat n) = of_nat n"
proof (cases "n = 0")
  case True
  then show ?thesis by (simp add: double_round_def)
next
  case False
  define k where "k = bit_length n"
  have k: "0 < k" "k \<le> 53"
    using False assms by (simp_all add: k_def bit_length_pos bit_length_bound)
  define m where "m = 53 - k"
  have e: "binary_exponent \<bar>of_nat n\<bar> = int k - 1"
    using False by (simp add: binary_exponent_def k_def)
  have u: "pow2 (max (int k - 1) (- 1022) - 52) = 1 / 2 ^ m"
    using k
    by (auto simp: pow2_def m_def max_def nat_diff_distrib
          intro: arg_cong [where f = "\<lambda>j. (2 :: real) ^ j"])
  have "\<bar>real n\<bar> / (1 / 2 ^ m) = of_int (int (n * 2 ^ m))" by simp
  then have r: "round_half_even (\<bar>real n\<bar> / (1 / 2 ^ m)) = int (n * 2 ^ m)"
    by (simp only: round_half_even_of_int)
  show ?thesis
    unfolding double_round_def Let_def e u r using False by simp
qed

lemma whole_kwh_double:
  assumes "whole_kwh x"
  shows "is_double x"
proof -
  define n where "n = nat \<lfloor>x\<rfloor>"
  from assms have i: "of_int \<lfloor>x\<rfloor> = x" and nn: "0 \<le> x" and lt: "x < 2 ^ 53"
    unfolding whole_kwh_def by blast+
  from nn have "0 \<le> \<lfloor>x\<rfloor>" by simp
  then have "real n = of_int \<lfloor>x\<rfloor>" unfolding n_def by (rule of_nat_nat)
  with i have x: "x = of_nat n" by (simp only:)
  from lt have "n < 2 ^ 53" unfolding x by (metis of_nat_less_numeral_power_cancel_iff)
  then have "double_round x = x" unfolding x by (rule double_round_of_nat)
  moreover have "(2 :: real) ^ 53 \<le> max_double" by (simp add: max_double_def)
  ultimately show ?thesis using nn lt by (simp add: is_double_def)
qed

lemma whole_kwh_diff:
  assumes "whole_kwh x" "whole_kwh y"
  shows "whole_kwh (x - min x y)"
proof -
  from assms have "of_int (\<lfloor>x\<rfloor> - \<lfloor>min x y\<rfloor>) = x - min x y"
    by (auto simp: whole_kwh_def min_def)
  then have "of_int \<lfloor>x - min x y\<rfloor> = x - min x y"
    by (metis floor_of_int)
  with assms show ?thesis by (auto simp: whole_kwh_def min_def)
qed

lemma whole_exact_walk:
  assumes "whole_kwh rem" "whole_blocks ts"
  shows "exact_walk rem ts"
  using assms
proof (induction ts arbitrary: rem)
  case Nil
  show ?case by simp
next
  case (Cons t ts)
  obtain b r where t: "t = (b, r)" by (cases t)
  show ?case
  proof (cases b)
    case None
    then show ?thesis by (simp add: t)
  next
    case (Some x)
    with Cons.prems(2) have x: "whole_kwh x" and ws: "whole_blocks ts"
      by (simp_all add: whole_blocks_def t)
    from whole_kwh_diff [OF Cons.prems(1) x] have d: "whole_kwh (rem - min rem x)" .
    from whole_kwh_double [OF d] whole_kwh_double [OF x] Cons.IH [OF d ws]
    show ?thesis by (simp add: t Some is_double_def)
  qed
qed

text \<open>
  Claim C1, as the code has it. Whenever the call returns, \<open>energy_cost\<close> is the
  interpreter's \<open>sum\<close> of the entry costs, \<open>total\<close> is its \<open>energy_cost + fixed_fee\<close> and
  \<open>fixed_fee\<close> is the argument. If the consumption and the block sizes read are
  doubles and no subtraction of the walk is rounded, then every returned breakdown
  adds up to the consumption to within the double \<open>1e-9\<close>; and if moreover the inputs
  are valid, the consumption is within the total capacity and neither a product nor
  the final addition raises, the call returns and the \<open>kwh\<close> of its entries add up to
  the consumption exactly. Nothing is rounded, in particular, when the consumption
  and the block sizes are whole numbers below \<open>2^53\<close>.
\<close>

theorem bill_totals_double:
  "(\<forall>b. calculate_tiered_bill_double fmul fsum fadd c ts fee = Inr b \<longrightarrow>
        energy_cost_d b = fsum (map cost_d (breakdown_d b))
      \<and> fadd (energy_cost_d b) (fixed_fee_d b) = Inr (total_d b)
      \<and> fixed_fee_d b = fee)
   \<and> (is_double c \<and> exact_walk c ts \<longrightarrow>
        (\<forall>b. calculate_tiered_bill_double fmul fsum fadd c ts fee = Inr b \<longrightarrow>
             \<bar>sum_list (map kwh_d (breakdown_d b)) - c\<bar> \<le> double_round (1 / 1000000000))
      \<and> (0 \<le> c \<and> 0 \<le> fee \<and> validate_tier_list ts = Inr ()
            \<and> within_capacity c ts \<and> operations_defined fmul fadd ts fee \<longrightarrow>
           (\<exists>b. calculate_tiered_bill_double fmul fsum fadd c ts fee = Inr b
                \<and> sum_list (map kwh_d (breakdown_d b)) = c)))
   \<and> (whole_kwh c \<and> whole_blocks ts \<longrightarrow> is_double c \<and> exact_walk c ts)"
proof (intro conjI impI allI)
  fix b assume "calculate_tiered_bill_double fmul fsum fadd c ts fee = Inr b"
  note s = calculate_double_success [OF this]
  from s show "energy_cost_d b = fsum (map cost_d (breakdown_d b))" by auto
  from s show "fadd (energy_cost_d b) (fixed_fee_d b) = Inr (total_d b)" by auto
  from s show "fixed_fee_d b = fee" by auto
next
  fix b
  assume a: "is_double c \<and> exact_walk c ts"
    and r: "calculate_tiered_bill_double fmul fsum fadd c ts fee = Inr b"
  from a have c: "float_of_real c = Inr c" and e: "exact_walk c ts"
    by (simp_all add: float_of_real_double)
  from calculate_double_success [OF r] c obtain p where
    nn: "0 \<le> c" and p: "walk_double fmul 1 c [] ts = Inr p"
    and le: "fst p \<le> double_round (1 / 1000000000)" and bd: "breakdown_d b = snd p"
    by auto
  note agree = exact_walk_agrees [OF e p]
  from le agree have "fst (walk 1 c [] ts) \<le> double_round (1 / 1000000000)" by simp
  moreover have "0 \<le> fst (walk 1 c [] ts)" using nn by (rule walk_remaining_nonneg)
  ultimately have "\<bar>sum_list (map kwh (snd (walk 1 c [] ts))) - c\<bar>
      \<le> double_round (1 / 1000000000)"
    using walk_remaining [of 1 c ts] by simp
  with agree bd
  show "\<bar>sum_list (map kwh_d (breakdown_d b)) - c\<bar> \<le> double_round (1 / 1000000000)"
    by simp
next
  assume a: "is_double c \<and> exact_walk c ts"
    and h: "0 \<le> c \<and> 0 \<le> fee \<and> validate_tier_list ts = Inr ()
            \<and> within_capacity c ts \<and> operations_defined fmul fadd ts fee"
  from a have d: "is_double c" and c: "float_of_real c = Inr c" and e: "exact_walk c ts"
    by (simp_all add: float_of_real_double)
  from h have v: "0 \<le> c" "0 \<le> fee" "validate_tier_list ts = Inr ()"
    and vs: "list_all valid_tier ts" and w: "within_capacity c ts"
    and mul: "\<forall>x. \<forall>t \<in> set ts. is_double x \<longrightarrow> (\<exists>y. fmul x (snd t) = Inr y)"
    and add: "\<And>y. \<exists>z. fadd y fee = Inr z"
    by (simp_all add: validate_tier_list_ok operations_defined_def)
  from exact_walk_returns [OF e d mul vs] obtain p where
    p: "walk_double fmul 1 c [] ts = Inr p" ..
  note agree = exact_walk_agrees [OF e p]
  from w have "fst (walk 1 c [] ts) \<le> 0" by (rule walk_within_capacity)
  with walk_remaining_nonneg [OF v(1), of 1 ts] have z: "fst (walk 1 c [] ts) = 0" by simp
  with walk_remaining [of 1 c ts] have sum: "sum_list (map kwh (snd (walk 1 c [] ts))) = c"
    by simp
  from z agree have le: "fst p \<le> double_round (1 / 1000000000)"
    by (simp add: double_1e_9)
  from add obtain t where t: "fadd (fsum (map cost_d (snd p))) fee = Inr t" by blast
  have "calculate_tiered_bill_double fmul fsum fadd c ts fee
     = Inr \<lparr>breakdown_d = snd p, energy_cost_d = fsum (map cost_d (snd p)),
            fixed_fee_d = fee, total_d = t\<rparr>"
    using v c p le t by (rule calculate_double_returns)
  with sum agree
  show "\<exists>b. calculate_tiered_bill_double fmul fsum fadd c ts fee = Inr b
           \<and> sum_list (map kwh_d (breakdown_d b)) = c"
    by simp
next
  assume "whole_kwh c \<and> whole_blocks ts"
  then show "is_double c" by (simp add: whole_kwh_double)
next
  assume "whole_kwh c \<and> whole_blocks ts"
  then show "exact_walk c ts" by (simp add: whole_exact_walk)
qed

theorem bill_totals_double_witness:
  "whole_kwh 350
   \<and> whole_blocks [(Some 100, 1 / 4), (Some 200, 1 / 2), (None, 3 / 4)]
   \<and> is_double 350
   \<and> exact_walk 350 [(Some 100, 1 / 4), (Some 200, 1 / 2), (None, 3 / 4)]
   \<and> validate_tier_list [(Some 100, 1 / 4), (Some 200, 1 / 2), (None, 3 / 4)] = Inr ()
   \<and> within_capacity 350 [(Some 100, 1 / 4), (Some 200, 1 / 2), (None, 3 / 4)]
   \<and> operations_defined (\<lambda>a b. Inr (double_round (a * b))) (\<lambda>a b. Inr (double_round (a + b)))
        [(Some 100, 1 / 4), (Some 200, 1 / 2), (None, 3 / 4)] 10
   \<and> calculate_tiered_bill_double (\<lambda>a b. Inr (double_round (a * b)))
        (foldl (\<lambda>a b. double_round (a + b)) 0) (\<lambda>a b. Inr (double_round (a + b)))
        350 [(Some 100, 1 / 4), (Some 200, 1 / 2), (None, 3 / 4)] 10
       = Inr \<lparr>breakdown_d =
               [\<lparr>tier_index_d = 1, kwh_d = 100, rate_d = 1 / 4, cost_d = 25\<rparr>,
                \<lparr>tier_index_d = 2, kwh_d = 200, rate_d = 1 / 2, cost_d = 100\<rparr>,
                \<lparr>tier_index_d = 3, kwh_d = 50, rate_d = 3 / 4, cost_d = 75 / 2\<rparr>],
              energy_cost_d = 325 / 2, fixed_fee_d = 10, total_d = 345 / 2\<rparr>
   \<and> sum_list [100, 200, 50] = (350 :: real)"
proof -
  have d: "double_round 350 = 350" "double_round 100 = 100" "double_round 200 = 200"
    "double_round 250 = 250" "double_round 50 = 50" "double_round 25 = 25"
    "double_round 125 = 125" "double_round (75 / 2) = 75 / 2"
    "double_round (325 / 2) = 325 / 2" "double_round (345 / 2) = 345 / 2"
    by (simp_all add: double_eval)
  have i: "is_double 350"
    by (simp add: is_double_def d max_double_def)
  have e: "exact_walk 350 [(Some 100, 1 / 4), (Some 200, 1 / 2), (None, 3 / 4)]"
    by (simp add: is_double_def d max_double_def)
  have v: "validate_tier_list [(Some 100, 1 / 4), (Some 200, 1 / 2), (None, 3 / 4)] = Inr ()"
    by (simp add: validate_tier_list_def)
  have w: "within_capacity 350 [(Some 100, 1 / 4), (Some 200, 1 / 2), (None, 3 / 4)]"
    by (simp add: within_capacity_def)
  have k: "whole_kwh 350"
    "whole_blocks [(Some 100, 1 / 4), (Some 200, 1 / 2), (None, 3 / 4)]"
    by (simp_all add: whole_kwh_def whole_blocks_def)
  have o: "operations_defined (\<lambda>a b. Inr (double_round (a * b)))
        (\<lambda>a b. Inr (double_round (a + b)))
        [(Some 100, 1 / 4), (Some 200, 1 / 2), (None, 3 / 4)] 10"
    by (simp add: operations_defined_def)
  have r: "calculate_tiered_bill_double (\<lambda>a b. Inr (double_round (a * b)))
        (foldl (\<lambda>a b. double_round (a + b)) 0) (\<lambda>a b. Inr (double_round (a + b)))
        350 [(Some 100, 1 / 4), (Some 200, 1 / 2), (None, 3 / 4)] 10
       = Inr \<lparr>breakdown_d =
               [\<lparr>tier_index_d = 1, kwh_d = 100, rate_d = 1 / 4, cost_d = 25\<rparr>,
                \<lparr>tier_index_d = 2, kwh_d = 200, rate_d = 1 / 2, cost_d = 100\<rparr>,
                \<lparr>tier_index_d = 3, kwh_d = 50, rate_d = 3 / 4, cost_d = 75 / 2\<rparr>],
              energy_cost_d = 325 / 2, fixed_fee_d = 10, total_d = 345 / 2\<rparr>"
    by (simp add: calculate_tiered_bill_double_def validate_common_def validate_tier_list_def
          float_of_real_def max_double_def Let_def d double_round_zero double_1e_9)
  from bill_totals_double [of "\<lambda>a b. Inr (double_round (a * b))"
         "foldl (\<lambda>a b. double_round (a + b)) 0" "\<lambda>a b. Inr (double_round (a + b))"
         350 "[(Some 100, 1 / 4), (Some 200, 1 / 2), (None, 3 / 4)]" 10] k i e v w o r
  show ?thesis by simp
qed

text \<open>
  The claim as stated fails where a subtraction is rounded. With consumption
  \<open>10000000000000002\<close> over the tiers \<open>(1, 1)\<close> and \<open>(None, 1)\<close> the call returns and
  its entries hold \<open>1\<close> and \<open>10^16\<close>: they miss the consumption by \<open>1\<close>, and by \<open>2\<close> when
  added in doubles. With consumption \<open>10^16\<close> over the blocks \<open>1\<close>, \<open>1\<close> and
  \<open>9999999999999998\<close>, whose capacity is the consumption, the call raises the overflow
  error with an excess of \<open>2.000\<close>.
\<close>

theorem bill_totals_counterexample:
  "validate_tier_list [(Some 1, 1), (None, 1)] = Inr ()
   \<and> within_capacity 10000000000000002 [(Some 1, 1), (None, 1)]
   \<and> is_double 10000000000000002
   \<and> calculate_tiered_bill_double (\<lambda>a b. Inr (double_round (a * b)))
        (foldl (\<lambda>a b. double_round (a + b)) 0) (\<lambda>a b. Inr (double_round (a + b)))
        10000000000000002 [(Some 1, 1), (None, 1)] 0
       = Inr \<lparr>breakdown_d =
               [\<lparr>tier_index_d = 1, kwh_d = 1, rate_d = 1, cost_d = 1\<rparr>,
                \<lparr>tier_index_d = 2, kwh_d = 10000000000000000, rate_d = 1,
                 cost_d = 10000000000000000\<rparr>],
              energy_cost_d = 10000000000000000, fixed_fee_d = 0,
              total_d = 10000000000000000\<rparr>
   \<and> double_round (1 / 1000000000)
        < \<bar>sum_list [1, 10000000000000000] - (10000000000000002 :: real)\<bar>
   \<and> double_round (1 / 1000000000)
        < \<bar>foldl (\<lambda>a b. double_round (a + b)) 0 [1, 10000000000000000] - 10000000000000002\<bar>
   \<and> validate_tier_list [(Some 1, 1), (Some 1, 1), (Some 9999999999999998, 1)] = Inr ()
   \<and> within_capacity 10000000000000000 [(Some 1, 1), (Some 1, 1), (Some 9999999999999998, 1)]
   \<and> is_double 10000000000000000 \<and> is_double 9999999999999998
   \<and> calculate_tiered_bill_double (\<lambda>a b. Inr (double_round (a * b)))
        (foldl (\<lambda>a b. double_round (a + b)) 0) (\<lambda>a b. Inr (double_round (a + b)))
        10000000000000000 [(Some 1, 1), (Some 1, 1), (Some 9999999999999998, 1)] 0
       = Inl (ValueError
           ''Consumption exceeds defined tiers by 2.000 kWh. Add a final tier with block_kwh=None.'')"
proof -
  have d: "double_round 10000000000000002 = 10000000000000002"
    "double_round 10000000000000001 = 10000000000000000"
    "double_round 10000000000000000 = 10000000000000000"
    "double_round 9999999999999999 = 10000000000000000"
    "double_round 9999999999999998 = 9999999999999998"
    "double_round 1 = 1" "double_round 2 = 2"
    by (simp_all add: double_eval)
  have f: "format_f False 3 2 = ''2.000''" by (simp add: format_eval)
  have a: "calculate_tiered_bill_double (\<lambda>a b. Inr (double_round (a * b)))
        (foldl (\<lambda>a b. double_round (a + b)) 0) (\<lambda>a b. Inr (double_round (a + b)))
        10000000000000002 [(Some 1, 1), (None, 1)] 0
       = Inr \<lparr>breakdown_d =
               [\<lparr>tier_index_d = 1, kwh_d = 1, rate_d = 1, cost_d = 1\<rparr>,
                \<lparr>tier_index_d = 2, kwh_d = 10000000000000000, rate_d = 1,
                 cost_d = 10000000000000000\<rparr>],
              energy_cost_d = 10000000000000000, fixed_fee_d = 0,
              total_d = 10000000000000000\<rparr>"
    by (simp add: calculate_tiered_bill_double_def validate_common_def validate_tier_list_def
          float_of_real_def max_double_def Let_def d double_round_zero double_1e_9)
  have b: "calculate_tiered_bill_double (\<lambda>a b. Inr (double_round (a * b)))
        (foldl (\<lambda>a b. double_round (a + b)) 0) (\<lambda>a b. Inr (double_round (a + b)))
        10000000000000000 [(Some 1, 1), (Some 1, 1), (Some 9999999999999998, 1)] 0
       = Inl (ValueError
           ''Consumption exceeds defined tiers by 2.000 kWh. Add a final tier with block_kwh=None.'')"
    by (simp add: calculate_tiered_bill_double_def validate_common_def validate_tier_list_def
          float_of_real_def max_double_def Let_def d double_round_zero double_1e_9
          overflow_message_def f)
  have v: "validate_tier_list [(Some 1, 1), (None, 1)] = Inr ()"
    "validate_tier_list [(Some 1, 1), (Some 1, 1), (Some 9999999999999998, 1)] = Inr ()"
    by (simp_all add: validate_tier_list_def)
  have w: "within_capacity 10000000000000002 [(Some 1, 1), (None, 1)]"
    "within_capacity 10000000000000000 [(Some 1, 1), (Some 1, 1), (Some 9999999999999998, 1)]"
    by (simp_all add: within_capacity_def)
  have i: "is_double 10000000000000002" "is_double 10000000000000000"
    "is_double 9999999999999998"
    by (simp_all add: is_double_def d max_double_def)
  have g: "double_round (1 / 1000000000)
        < \<bar>sum_list [1, 10000000000000000] - (10000000000000002 :: real)\<bar>"
    "double_round (1 / 1000000000)
        < \<bar>foldl (\<lambda>a b. double_round (a + b)) 0 [1, 10000000000000000] - 10000000000000002\<bar>"
    by (simp_all add: double_1e_9 d)
  from a b v w g i show ?thesis by simp
qed

text \<open>
  The same happens with fractional block sizes: consumption \<open>48188899\<close> over the
  blocks \<open>4.9\<close>, \<open>48188892\<close> and \<open>2.1\<close>, whose sizes add up to the consumption,
  leaves \<open>3355443 / 2^51\<close> (about \<open>1.49e-9\<close>) after the walk, and the call raises.
\<close>

lemma fractional_blocks_example:
  "within_capacity 48188899 [(Some (49 / 10), 1), (Some 48188892, 1), (Some (21 / 10), 1)]
   \<and> calculate_tiered_bill_double (\<lambda>a b. Inr (double_round (a * b)))
        (foldl (\<lambda>a b. double_round (a + b)) 0) (\<lambda>a b. Inr (double_round (a + b)))
        48188899 [(Some (49 / 10), 1), (Some 48188892, 1), (Some (21 / 10), 1)] 0
       = Inl (ValueError
           ''Consumption exceeds defined tiers by 0.000 kWh. Add a final tier with block_kwh=None.'')"
proof -
  have d: "double_round 48188899 = 48188899" "double_round 48188892 = 48188892"
    "double_round (49 / 10) = 2758454771764429 / 562949953421312"
    "double_round (21 / 10) = 4728779608739021 / 2251799813685248"
    "double_round (27127935689019536651059 / 562949953421312)
       = 6467803880934605 / 134217728"
    "double_round (281857229 / 134217728) = 281857229 / 134217728"
    "double_round (3355443 / 2251799813685248) = 3355443 / 2251799813685248"
    by (simp_all add: double_eval)
  have f: "format_f False 3 (3355443 / 2251799813685248) = ''0.000''"
    by (simp add: format_eval)
  have w: "within_capacity 48188899 [(Some (49 / 10), 1), (Some 48188892, 1), (Some (21 / 10), 1)]"
    by (simp add: within_capacity_def)
  have b: "calculate_tiered_bill_double (\<lambda>a b. Inr (double_round (a * b)))
        (foldl (\<lambda>a b. double_round (a + b)) 0) (\<lambda>a b. Inr (double_round (a + b)))
        48188899 [(Some (49 / 10), 1), (Some 48188892, 1), (Some (21 / 10), 1)] 0
       = Inl (ValueError
           ''Consumption exceeds defined tiers by 0.000 kWh. Add a final tier with block_kwh=None.'')"
    by (simp add: calculate_tiered_bill_double_def validate_common_def validate_tier_list_def
          float_of_real_def max_double_def Let_def double_round_zero double_1e_9
          overflow_message_def d f)
  from w b show ?thesis by simp
qed

subsection \<open>Splitting, joining and stripping\<close>

lemma split_nonempty: "split c s \<noteq> []"
  by (cases s) simp_all

lemma split_no_sep: "c \<notin> set s \<Longrightarrow> split c s = [s]"
  by (induction s) auto

lemma split_first: "c \<notin> set a \<Longrightarrow> split c (a @ c # b) = a # split c b"
  by (induction a) auto

lemma split_last: "c \<notin> set b \<Longrightarrow> split c (a @ c # b) = split c a @ [b]"
proof (induction a)
  case Nil
  then show ?case by (simp add: split_no_sep)
next
  case (Cons x a)
  then show ?case by (simp add: split_nonempty)
qed

lemma split_join:
  "ps \<noteq> [] \<Longrightarrow> \<forall>p \<in> set ps. c \<notin> set p \<Longrightarrow> split c (join [c] ps) = ps"
proof (induction "[c]" ps rule: join.induct)
  case 1
  then show ?case by simp
next
  case (2 x)
  then show ?case by (simp add: split_no_sep)
next
  case (3 x y ys)
  then show ?case by (simp add: split_first)
qed

lemma lstrip_append_nonspace:
  "\<not> isspace c \<Longrightarrow> lstrip (a @ c # b) = lstrip a @ c # b"
  by (simp add: lstrip_def dropWhile_append)

lemma rstrip_append_nonspace:
  "\<not> isspace c \<Longrightarrow> rstrip (a @ c # b) = a @ c # rstrip b"
  by (simp add: rstrip_def dropWhile_append)

lemma set_lstrip: "set (lstrip s) \<subseteq> set s"
  by (auto simp: lstrip_def dest: set_dropWhileD)

lemma set_rstrip: "set (rstrip s) \<subseteq> set s"
  by (auto simp: rstrip_def dest: set_dropWhileD)

lemma lstrip_idem: "lstrip (lstrip s) = lstrip s"
  by (simp add: lstrip_def)

lemma rstrip_idem: "rstrip (rstrip s) = rstrip s"
  by (simp add: rstrip_def)

lemma lstrip_cases:
  obtains "lstrip s = []" "strip s = []"
  | x xs where "lstrip s = x # xs" "\<not> isspace x" "strip s = x # rstrip xs"
proof (cases "lstrip s")
  case Nil
  then have "\<forall>x \<in> set s. isspace x" by (simp add: lstrip_def)
  then have "rstrip s = []" by (simp add: rstrip_def)
  then have "strip s = []" by (simp add: strip_def lstrip_def)
  with Nil that(1) show ?thesis by blast
next
  case (Cons x xs)
  then have x: "\<not> isspace x"
    using hd_dropWhile [of isspace s] by (simp add: lstrip_def)
  define w where "w = takeWhile isspace s"
  have "takeWhile isspace s @ dropWhile isspace s = s" by (rule takeWhile_dropWhile_id)
  with Cons have s: "s = w @ x # xs" by (simp only: w_def lstrip_def)
  have w: "lstrip w = []" by (auto simp: w_def lstrip_def dest: set_takeWhileD)
  have "strip s = x # rstrip xs"
    unfolding s strip_def
    by (simp add: rstrip_append_nonspace [OF x] lstrip_append_nonspace [OF x] w)
  with Cons x that(2) show ?thesis by blast
qed

lemma lstrip_rstrip: "lstrip (rstrip s) = rstrip (lstrip s)"
proof (cases s rule: lstrip_cases)
  case 1
  then show ?thesis by (simp add: strip_def rstrip_def)
next
  case (2 x xs)
  from 2(2) have "rstrip (x # xs) = x # rstrip xs"
    using rstrip_append_nonspace [of x "[]" xs] by simp
  with 2 show ?thesis by (simp add: strip_def)
qed

lemma strip_lstrip: "strip (lstrip s) = strip s"
  by (simp add: strip_def lstrip_rstrip [symmetric] lstrip_idem)

lemma strip_rstrip: "strip (rstrip s) = strip s"
  by (simp add: strip_def rstrip_idem)

lemma strip_strip: "strip (strip s) = strip s"
  by (simp add: strip_def strip_lstrip [unfolded strip_def] rstrip_idem)

lemma json_form_first_visible: "json_form s \<longleftrightarrow> first_visible s = Some 91"
proof (cases s rule: lstrip_cases)
  case 1
  then show ?thesis
    unfolding json_form_def first_visible_def lstrip_def [symmetric] by simp
next
  case (2 x xs)
  then show ?thesis
    unfolding json_form_def first_visible_def lstrip_def [symmetric] by simp
qed

lemma split_lstrip:
  assumes "\<not> isspace c"
  shows "split c (lstrip s) = lstrip (hd (split c s)) # tl (split c s)"
proof (cases "c \<in> set s")
  case False
  with set_lstrip [of s] have "c \<notin> set (lstrip s)" by auto
  with False show ?thesis by (simp add: split_no_sep)
next
  case True
  then obtain a b where s: "s = a @ c # b" and a: "c \<notin> set a"
    using split_list_first [of c s] by blast
  from a set_lstrip [of a] have "c \<notin> set (lstrip a)" by auto
  then show ?thesis
    unfolding s by (simp add: lstrip_append_nonspace [OF assms] split_first a)
qed

lemma split_rstrip:
  assumes "\<not> isspace c"
  shows "split c (rstrip s) = butlast (split c s) @ [rstrip (last (split c s))]"
proof (cases "c \<in> set s")
  case False
  with set_rstrip [of s] have "c \<notin> set (rstrip s)" by auto
  with False show ?thesis by (simp add: split_no_sep)
next
  case True
  then obtain a b where s: "s = a @ c # b" and b: "c \<notin> set b"
    using split_list_last [of c s] by blast
  from b set_rstrip [of b] have "c \<notin> set (rstrip b)" by auto
  then show ?thesis
    unfolding s by (simp add: rstrip_append_nonspace [OF assms] split_last b)
qed

text \<open>Stripping the whole text first changes no stripped piece.\<close>

lemma map_strip_split_strip:
  assumes "\<not> isspace c"
  shows "map strip (split c (strip s)) = map strip (split c s)"
proof -
  define X where "X = split c (rstrip s)"
  define Y where "Y = split c s"
  have X: "X \<noteq> []" and Y: "Y \<noteq> []" by (simp_all add: X_def Y_def split_nonempty)
  have "map strip (split c (strip s)) = strip (lstrip (hd X)) # map strip (tl X)"
    by (simp add: strip_def split_lstrip [OF assms] X_def)
  also have "\<dots> = map strip X"
    using X by (cases X) (simp_all add: strip_lstrip)
  also have "X = butlast Y @ [rstrip (last Y)]"
    by (simp add: X_def Y_def split_rstrip [OF assms])
  also have "map strip (butlast Y @ [rstrip (last Y)]) = map strip (butlast Y @ [last Y])"
    by (simp add: strip_rstrip)
  also have "butlast Y @ [last Y] = Y" using Y by simp
  finally show ?thesis by (simp add: Y_def)
qed

lemma not_isspace_comma: "\<not> isspace 44"
  by (simp add: isspace_def)

lemma not_isspace_at: "\<not> isspace 64"
  by (simp add: isspace_def)

lemma float_space_isspace: "float_space n \<Longrightarrow> isspace n"
  by (simp add: float_space_def)

text \<open>The two pieces of a stripped \<open>size@rate\<close>.\<close>

lemma split_strip_pair:
  assumes "64 \<notin> set s" "64 \<notin> set r"
  shows "split 64 (strip (s @ 64 # r)) = [lstrip s, rstrip r]"
proof -
  from assms set_lstrip [of s] set_rstrip [of r]
  have "64 \<notin> set (lstrip s)" "64 \<notin> set (rstrip r)" by auto
  then show ?thesis
    by (simp add: strip_def rstrip_append_nonspace [OF not_isspace_at]
          lstrip_append_nonspace [OF not_isspace_at] split_first split_no_sep)
qed

subsection \<open>The shorthand loop\<close>

lemma shorthand_entry_pieces:
  assumes "64 \<notin> set s" "64 \<notin> set r"
  shows "shorthand_entry lit (s @ 64 # r) =
     (case (if strip s \<in> {ustr ''*'', ustr ''None'', ustr ''null''} then Inr None
            else map_sum id Some (float_of_str lit (lstrip s))) of
        Inl e \<Rightarrow> Inl e
      | Inr sz \<Rightarrow>
          (case float_of_str lit (rstrip r) of Inl e \<Rightarrow> Inl e | Inr x \<Rightarrow> Inr (sz, x)))"
  unfolding shorthand_entry_def
  by (simp add: split_strip_pair [OF assms] strip_lstrip)

lemma shorthand_entry_no_at:
  assumes "64 \<notin> set p"
  shows "shorthand_entry lit p = Inl UnpackError"
proof -
  from assms set_lstrip [of "rstrip p"] set_rstrip [of p]
  have "64 \<notin> set (strip p)" by (auto simp: strip_def)
  then show ?thesis by (simp add: shorthand_entry_def split_no_sep)
qed

lemma shorthand_entry_errors:
  "shorthand_entry lit p = Inl e \<Longrightarrow> e = UnpackError \<or> e = FloatError"
  by (auto simp: shorthand_entry_def float_of_str_def
           split: list.splits option.splits sum.splits if_splits)

lemma shorthand_entry_cong:
  "strip p = strip q \<Longrightarrow> shorthand_entry lit p = shorthand_entry lit q"
  by (simp add: shorthand_entry_def)

lemma shorthand_tiers_cong:
  "map strip ps = map strip qs \<Longrightarrow> shorthand_tiers lit ps = shorthand_tiers lit qs"
proof (induction ps arbitrary: qs)
  case Nil
  then show ?case by simp
next
  case (Cons p ps)
  then obtain q qs' where qs: "qs = q # qs'" "strip p = strip q" "map strip ps = map strip qs'"
    by (cases qs) auto
  from Cons.IH [OF qs(3)] shorthand_entry_cong [OF qs(2), of lit]
  show ?case by (auto simp: qs(1) split: sum.splits)
qed

lemma shorthand_tiers_errors:
  "shorthand_tiers lit ps = Inl e \<Longrightarrow> e = UnpackError \<or> e = FloatError"
proof (induction ps)
  case Nil
  then show ?case by simp
next
  case (Cons p ps)
  then show ?case
    by (auto split: sum.splits dest: shorthand_entry_errors)
qed

lemma shorthand_tiers_fails:
  "p \<in> set ps \<Longrightarrow> shorthand_entry lit p = Inl e \<Longrightarrow> \<exists>e'. shorthand_tiers lit ps = Inl e'"
  by (induction ps) (auto split: sum.splits)

lemma parse_tiers_shorthand:
  assumes "text \<noteq> []" "\<not> json_form text"
  shows "parse_tiers lit json_loads text = shorthand_tiers lit (split 44 text)"
proof -
  have "parse_tiers lit json_loads text = shorthand_tiers lit (split 44 (strip text))"
    using assms by (auto simp: parse_tiers_def json_form_def Let_def)
  also have "\<dots> = shorthand_tiers lit (split 44 text)"
    by (rule shorthand_tiers_cong) (rule map_strip_split_strip [OF not_isspace_comma])
  finally show ?thesis .
qed

lemma shorthand_entry_reads:
  assumes "64 \<notin> set s" "64 \<notin> set r"
  shows "shorthand_entry lit (s @ 64 # r) =
     (if reads_size lit s \<noteq> None \<and> lit (float_strip (rstrip r)) \<noteq> None
      then Inr (the (reads_size lit s), the (lit (float_strip (rstrip r))))
      else Inl FloatError)"
  unfolding shorthand_entry_pieces [OF assms] reads_size_def float_of_str_def
  by (auto split: option.splits)

lemma shorthand_tiers_entries:
  assumes "\<forall>e \<in> set es. 64 \<notin> set (fst e) \<and> 64 \<notin> set (snd e)"
  shows "shorthand_tiers lit (map (\<lambda>e. fst e @ 64 # snd e) es) =
     (if \<forall>e \<in> set es. reads_size lit (fst e) \<noteq> None \<and> lit (float_strip (rstrip (snd e))) \<noteq> None
      then Inr (map (\<lambda>e. (the (reads_size lit (fst e)),
                           the (lit (float_strip (rstrip (snd e)))))) es)
      else Inl FloatError)"
  using assms
proof (induction es)
  case Nil
  show ?case by simp
next
  case (Cons e es)
  then have at: "64 \<notin> set (fst e)" "64 \<notin> set (snd e)" by simp_all
  from Cons show ?case
    by (simp add: shorthand_entry_reads [OF at])
qed

lemma shorthand_text_unfold:
  "shorthand_text es = join [44] (map (\<lambda>e. fst e @ 64 # snd e) es)"
  by (simp add: shorthand_text_def ustr_def)

lemma parse_tiers_shorthand_text:
  assumes "es \<noteq> []" "\<forall>e \<in> set es. plain (fst e) \<and> plain (snd e)"
    "\<not> json_form (shorthand_text es)"
  shows "parse_tiers lit json_loads (shorthand_text es) =
     (if \<forall>e \<in> set es. reads_size lit (fst e) \<noteq> None \<and> lit (float_strip (rstrip (snd e))) \<noteq> None
      then Inr (map (\<lambda>e. (the (reads_size lit (fst e)),
                           the (lit (float_strip (rstrip (snd e)))))) es)
      else Inl FloatError)"
proof -
  define ps where "ps = map (\<lambda>e. fst e @ 64 # snd e) es"
  have ps: "ps \<noteq> []" "\<forall>p \<in> set ps. 44 \<notin> set p"
    using assms(1,2) by (auto simp: ps_def plain_def)
  have joined: "shorthand_text es = join [44] ps"
    by (simp add: shorthand_text_unfold ps_def)
  from assms(1) obtain e es' where "es = e # es'" by (cases es) auto
  then have "shorthand_text es \<noteq> []"
    by (cases es') (simp_all add: shorthand_text_unfold)
  with assms(3) have "parse_tiers lit json_loads (shorthand_text es)
      = shorthand_tiers lit (split 44 (shorthand_text es))"
    by (intro parse_tiers_shorthand) simp_all
  also have "split 44 (shorthand_text es) = ps"
    using split_join [OF ps] by (simp add: joined)
  finally show ?thesis
    unfolding ps_def using assms(2) by (subst (asm) shorthand_tiers_entries) (auto simp: plain_def)
qed

subsection \<open>Tier text parser\<close>

lemma drop_end_all:
  "\<forall>x \<in> set ys. P x \<Longrightarrow> rev (dropWhile P (rev (xs @ ys))) = rev (dropWhile P (rev xs))"
  by (simp add: dropWhile_append)

lemma drop_end_last:
  "xs \<noteq> [] \<Longrightarrow> \<not> P (last xs) \<Longrightarrow> rev (dropWhile P (rev xs)) = xs"
  by (cases xs rule: rev_cases) simp_all

lemma drop_front_hd: "ys \<noteq> [] \<Longrightarrow> \<not> P (hd ys) \<Longrightarrow> dropWhile P ys = ys"
  by (cases ys) simp_all

lemma size_component_reads:
  assumes "size_component p"
  shows "plain (typed p)" "strip (typed p) = token_of p"
    "float_strip (lstrip (typed p)) = token_of p"
proof -
  obtain a t b where p: "p = (a, t, b)" by (cases p)
  from assms have a: "\<forall>x \<in> set a. isspace x" and b: "\<forall>x \<in> set b. float_space x"
    and t: "plain t" "t = [] \<or> (\<not> isspace (hd t) \<and> \<not> isspace (last t))"
    by (simp_all add: p size_component_def token_def list_all_iff)
  from b have b': "\<forall>x \<in> set b. isspace x" by (auto dest: float_space_isspace)
  from a b' t(1) not_isspace_comma not_isspace_at show "plain (typed p)"
    by (auto simp: p typed_def plain_def)
  show "strip (typed p) = token_of p"
  proof (cases "t = []")
    case True
    with a b' have "rstrip (a @ t @ b) = []" by (auto simp: rstrip_def)
    with True show ?thesis by (simp add: p typed_def token_of_def strip_def lstrip_def)
  next
    case False
    with t(2) have ends: "\<not> isspace (hd t)" "\<not> isspace (last t)" by simp_all
    have "rstrip (a @ t @ b) = rev (dropWhile isspace (rev (a @ t)))"
      using drop_end_all [of b isspace "a @ t"] b' by (simp add: rstrip_def)
    also have "\<dots> = a @ t"
      using False ends(2) by (intro drop_end_last) simp_all
    finally have "strip (a @ t @ b) = dropWhile isspace (a @ t)"
      by (simp add: strip_def lstrip_def)
    also have "\<dots> = dropWhile isspace t" using a by (simp add: dropWhile_append)
    also have "\<dots> = t" using False ends(1) by (rule drop_front_hd)
    finally show ?thesis by (simp add: p typed_def token_of_def)
  qed
  show "float_strip (lstrip (typed p)) = token_of p"
  proof (cases "t = []")
    case True
    with a b' have "lstrip (a @ t @ b) = []" by (auto simp: lstrip_def)
    with True show ?thesis by (simp add: p typed_def token_of_def float_strip_def)
  next
    case False
    with t(2) have ends: "\<not> float_space (hd t)" "\<not> float_space (last t)" "\<not> isspace (hd t)"
      by (auto dest: float_space_isspace)
    have "lstrip (a @ t @ b) = dropWhile isspace (t @ b)"
      using a by (simp add: lstrip_def dropWhile_append)
    also have "\<dots> = t @ b"
      using False ends(3) by (intro drop_front_hd) simp_all
    finally have "float_strip (lstrip (a @ t @ b))
        = dropWhile float_space (rev (dropWhile float_space (rev (t @ b))))"
      by (simp only: float_strip_def)
    also have "rev (dropWhile float_space (rev (t @ b))) = rev (dropWhile float_space (rev t))"
      using b by (rule drop_end_all)
    also have "\<dots> = t" using False ends(2) by (rule drop_end_last)
    also have "dropWhile float_space t = t" using False ends(1) by (rule drop_front_hd)
    finally show ?thesis by (simp add: p typed_def token_of_def)
  qed
qed

lemma rate_component_reads:
  assumes "rate_component p"
  shows "plain (typed p)" "float_strip (rstrip (typed p)) = token_of p"
proof -
  obtain a t b where p: "p = (a, t, b)" by (cases p)
  from assms have a: "\<forall>x \<in> set a. float_space x" and b: "\<forall>x \<in> set b. isspace x"
    and t: "plain t" "t = [] \<or> (\<not> isspace (hd t) \<and> \<not> isspace (last t))"
    by (simp_all add: p rate_component_def token_def list_all_iff)
  from a have a': "\<forall>x \<in> set a. isspace x" by (auto dest: float_space_isspace)
  from a' b t(1) not_isspace_comma not_isspace_at show "plain (typed p)"
    by (auto simp: p typed_def plain_def)
  show "float_strip (rstrip (typed p)) = token_of p"
  proof (cases "t = []")
    case True
    with a' b have "rstrip (a @ t @ b) = []" by (auto simp: rstrip_def)
    with True show ?thesis by (simp add: p typed_def token_of_def float_strip_def)
  next
    case False
    with t(2) have ends: "\<not> float_space (hd t)" "\<not> float_space (last t)" "\<not> isspace (last t)"
      by (auto dest: float_space_isspace)
    have "rstrip (a @ t @ b) = rev (dropWhile isspace (rev (a @ t)))"
      using drop_end_all [of b isspace "a @ t"] b by (simp add: rstrip_def)
    also have "\<dots> = a @ t"
      using False ends(3) by (intro drop_end_last) simp_all
    finally have "float_strip (rstrip (a @ t @ b))
        = dropWhile float_space (rev (dropWhile float_space (rev (a @ t))))"
      by (simp only: float_strip_def)
    also have "rev (dropWhile float_space (rev (a @ t))) = a @ t"
      using False ends(2) by (intro drop_end_last) simp_all
    also have "dropWhile float_space (a @ t) = dropWhile float_space t"
      using a by (simp add: dropWhile_append)
    also have "\<dots> = t" using False ends(1) by (rule drop_front_hd)
    finally show ?thesis by (simp add: p typed_def token_of_def)
  qed
qed

lemma parse_tiers_typed:
  assumes "es \<noteq> []" "\<forall>e \<in> set es. size_component (fst e) \<and> rate_component (snd e)"
    "first_visible (join (ustr '','') (map entry_text es)) \<noteq> Some 91"
  shows "parse_tiers lit json_loads (join (ustr '','') (map entry_text es)) =
     (if \<forall>e \<in> set es. token_size lit (token_of (fst e)) \<noteq> None \<and> lit (token_of (snd e)) \<noteq> None
      then Inr (map (\<lambda>e. (the (token_size lit (token_of (fst e))),
                           the (lit (token_of (snd e))))) es)
      else Inl FloatError)"
proof -
  define es' where "es' = map (\<lambda>e. (typed (fst e), typed (snd e))) es"
  have joined: "shorthand_text es' = join (ustr '','') (map entry_text es)"
    by (simp add: shorthand_text_def es'_def entry_text_def [abs_def] comp_def)
  have size: "reads_size lit (typed (fst e)) = token_size lit (token_of (fst e))"
    and rate: "lit (float_strip (rstrip (typed (snd e)))) = lit (token_of (snd e))"
    and pl: "plain (typed (fst e))" "plain (typed (snd e))"
    if "e \<in> set es" for e
    using that assms(2) size_component_reads [of "fst e"] rate_component_reads [of "snd e"]
    by (simp_all add: reads_size_def token_size_def)
  have "parse_tiers lit json_loads (shorthand_text es') =
     (if \<forall>e \<in> set es'. reads_size lit (fst e) \<noteq> None \<and> lit (float_strip (rstrip (snd e))) \<noteq> None
      then Inr (map (\<lambda>e. (the (reads_size lit (fst e)),
                           the (lit (float_strip (rstrip (snd e)))))) es')
      else Inl FloatError)"
  proof (rule parse_tiers_shorthand_text)
    show "es' \<noteq> []" using assms(1) by (simp add: es'_def)
    show "\<forall>e \<in> set es'. plain (fst e) \<and> plain (snd e)" using pl by (auto simp: es'_def)
    show "\<not> json_form (shorthand_text es')"
      using assms(3) by (simp add: joined json_form_first_visible)
  qed
  moreover have "(\<forall>e \<in> set es'. reads_size lit (fst e) \<noteq> None
                     \<and> lit (float_strip (rstrip (snd e))) \<noteq> None)
      \<longleftrightarrow> (\<forall>e \<in> set es. token_size lit (token_of (fst e)) \<noteq> None
                     \<and> lit (token_of (snd e)) \<noteq> None)"
    using size rate by (simp add: es'_def del: not_None_eq)
  moreover have "map (\<lambda>e. (the (reads_size lit (fst e)),
                           the (lit (float_strip (rstrip (snd e)))))) es'
      = map (\<lambda>e. (the (token_size lit (token_of (fst e))), the (lit (token_of (snd e))))) es"
    using size rate by (simp add: es'_def comp_def)
  ultimately show ?thesis by (simp only: joined)
qed

lemma parse_tiers_missing_at:
  assumes "ps \<noteq> []" "\<forall>p \<in> set ps. 44 \<notin> set p" "\<exists>p \<in> set ps. 64 \<notin> set p"
    "join (ustr '','') ps \<noteq> []" "first_visible (join (ustr '','') ps) \<noteq> Some 91"
  shows "parse_tiers lit json_loads (join (ustr '','') ps) = Inl UnpackError
     \<or> parse_tiers lit json_loads (join (ustr '','') ps) = Inl FloatError"
proof -
  from assms(3) obtain p where p: "p \<in> set ps" "64 \<notin> set p" by blast
  have "parse_tiers lit json_loads (join (ustr '','') ps)
      = shorthand_tiers lit (split 44 (join (ustr '','') ps))"
    using assms(4,5) by (intro parse_tiers_shorthand) (simp_all add: json_form_first_visible)
  also have "split 44 (join (ustr '','') ps) = ps"
    using split_join [OF assms(1,2)] by (simp add: ustr_def)
  finally have eq: "parse_tiers lit json_loads (join (ustr '','') ps) = shorthand_tiers lit ps" .
  from shorthand_tiers_fails [OF p(1) shorthand_entry_no_at [OF p(2)]]
  obtain e' where e': "shorthand_tiers lit ps = Inl e'" by blast
  from shorthand_tiers_errors [OF e'] e' eq show ?thesis by auto
qed

lemma ustr_examples:
  "ustr ''100@0.2, *@0.3''
     = join (ustr '','')
         (map entry_text [(([], ustr ''100'', []), ([], ustr ''0.2'', [])),
                          ((ustr '' '', ustr ''*'', []), ([], ustr ''0.3'', []))])"
  "[0xA0] @ ustr ''*  @0.2'' @ [0x1C, 0x3000]
     = join (ustr '','')
         (map entry_text [(([0xA0], ustr ''*'', ustr ''  ''), ([], ustr ''0.2'', [0x1C, 0x3000]))])"
  by (simp_all add: ustr_def entry_text_def typed_def)

lemma component_examples:
  "size_component ([], ustr ''100'', [])" "rate_component ([], ustr ''0.2'', [])"
  "size_component (ustr '' '', ustr ''*'', [])" "rate_component ([], ustr ''0.3'', [])"
  "size_component ([0xA0], ustr ''*'', ustr ''  '')"
  "rate_component ([], ustr ''0.2'', [0x1C, 0x3000])"
  by (simp_all add: size_component_def rate_component_def token_def plain_def ustr_def
        isspace_def float_space_def)

text \<open>
  Claim C6. In shorthand form the text is split on commas into \<open>size@rate\<close>
  entries and the whitespace typed around the components is dropped; a size token
  that is literally \<open>*\<close>, \<open>None\<close> or \<open>null\<close> is the unlimited sentinel, any other size
  token and every rate token is read as a number; the tiers come out in the order of
  the entries. A text with an entry without \<open>@\<close> fails with a \<open>ValueError\<close> of a
  built-in (unpacking, or a conversion that failed before it).
  \<open>parse_tiers("100@0.2, *@0.3")\<close> is \<open>[(100.0, 0.2), (None, 0.3)]\<close>, and the
  whitespace that is dropped is Unicode's: a no-break space before and an ideographic
  space after the entry change nothing.
\<close>

theorem shorthand_grammar:
  "(es \<noteq> [] \<and> (\<forall>e \<in> set es. size_component (fst e) \<and> rate_component (snd e))
      \<and> first_visible (join (ustr '','') (map entry_text es)) \<noteq> Some (of_char CHR ''['') \<longrightarrow>
      parse_tiers lit json_loads (join (ustr '','') (map entry_text es)) =
        (if \<forall>e \<in> set es. token_size lit (token_of (fst e)) \<noteq> None
                          \<and> lit (token_of (snd e)) \<noteq> None
         then Inr (map (\<lambda>e. (the (token_size lit (token_of (fst e))),
                              the (lit (token_of (snd e))))) es)
         else Inl FloatError))
   \<and> (ps \<noteq> [] \<and> (\<forall>p \<in> set ps. of_char CHR '','' \<notin> set p)
        \<and> (\<exists>p \<in> set ps. of_char CHR ''@'' \<notin> set p)
        \<and> join (ustr '','') ps \<noteq> []
        \<and> first_visible (join (ustr '','') ps) \<noteq> Some (of_char CHR ''['') \<longrightarrow>
      parse_tiers lit json_loads (join (ustr '','') ps) = Inl UnpackError
      \<or> parse_tiers lit json_loads (join (ustr '','') ps) = Inl FloatError)
   \<and> (lit (ustr ''100'') = Some 100 \<and> lit (ustr ''0.2'') = Some (2 / 10)
        \<and> lit (ustr ''0.3'') = Some (3 / 10) \<longrightarrow>
      parse_tiers lit json_loads (ustr ''100@0.2, *@0.3'')
        = Inr [(Some 100, 2 / 10), (None, 3 / 10)])
   \<and> (lit (ustr ''0.2'') = Some (2 / 10) \<longrightarrow>
      parse_tiers lit json_loads ([0xA0] @ ustr ''*  @0.2'' @ [0x1C, 0x3000])
        = Inr [(None, 2 / 10)])"
proof (intro conjI impI)
  assume "es \<noteq> [] \<and> (\<forall>e \<in> set es. size_component (fst e) \<and> rate_component (snd e))
      \<and> first_visible (join (ustr '','') (map entry_text es)) \<noteq> Some (of_char CHR ''['')"
  then show "parse_tiers lit json_loads (join (ustr '','') (map entry_text es)) =
        (if \<forall>e \<in> set es. token_size lit (token_of (fst e)) \<noteq> None
                          \<and> lit (token_of (snd e)) \<noteq> None
         then Inr (map (\<lambda>e. (the (token_size lit (token_of (fst e))),
                              the (lit (token_of (snd e))))) es)
         else Inl FloatError)"
    by (intro parse_tiers_typed) simp_all
next
  assume "ps \<noteq> [] \<and> (\<forall>p \<in> set ps. of_char CHR '','' \<notin> set p)
        \<and> (\<exists>p \<in> set ps. of_char CHR ''@'' \<notin> set p)
        \<and> join (ustr '','') ps \<noteq> []
        \<and> first_visible (join (ustr '','') ps) \<noteq> Some (of_char CHR ''['')"
  then show "parse_tiers lit json_loads (join (ustr '','') ps) = Inl UnpackError
      \<or> parse_tiers lit json_loads (join (ustr '','') ps) = Inl FloatError"
    by (intro parse_tiers_missing_at) simp_all
next
  assume l: "lit (ustr ''100'') = Some 100 \<and> lit (ustr ''0.2'') = Some (2 / 10)
        \<and> lit (ustr ''0.3'') = Some (3 / 10)"
  have v: "first_visible (ustr ''100@0.2, *@0.3'') \<noteq> Some 91"
    by (simp add: first_visible_def ustr_def isspace_def)
  have r: "token_size lit (ustr ''100'') = Some (Some 100)" "token_size lit (ustr ''*'') = Some None"
    "lit (ustr ''0.2'') = Some (2 / 10)" "lit (ustr ''0.3'') = Some (3 / 10)"
    using l by (simp_all add: token_size_def) (simp_all add: ustr_def)
  show "parse_tiers lit json_loads (ustr ''100@0.2, *@0.3'')
        = Inr [(Some 100, 2 / 10), (None, 3 / 10)]"
    using v unfolding ustr_examples(1)
    by (subst parse_tiers_typed)
       (simp_all add: component_examples token_of_def r del: not_None_eq)
next
  assume l: "lit (ustr ''0.2'') = Some (2 / 10)"
  have v: "first_visible ([0xA0] @ ustr ''*  @0.2'' @ [0x1C, 0x3000]) \<noteq> Some 91"
    by (simp add: first_visible_def ustr_def isspace_def)
  have r: "token_size lit (ustr ''*'') = Some None"
    by (simp add: token_size_def)
  show "parse_tiers lit json_loads ([0xA0] @ ustr ''*  @0.2'' @ [0x1C, 0x3000])
        = Inr [(None, 2 / 10)]"
    using v unfolding ustr_examples(2)
    by (subst parse_tiers_typed)
       (simp_all add: component_examples token_of_def r l del: not_None_eq)
qed

lemma decimal_literal_examples:
  "decimal_literal (ustr ''100'') = Some 100"
  "decimal_literal (ustr ''0.2'') = Some (2 / 10)"
  "decimal_literal (ustr ''0.3'') = Some (3 / 10)"
  by (simp_all add: decimal_literal_def is_digit_def digits_value_def ustr_def)

theorem shorthand_grammar_witness:
  "size_component ([], ustr ''100'', []) \<and> rate_component ([], ustr ''0.2'', [])
   \<and> size_component ([0xA0, 0x20], ustr ''None'', ustr ''  '')
   \<and> rate_component (ustr '' '', ustr ''0.3'', [0x1C, 0x3000])
   \<and> parse_tiers decimal_literal (\<lambda>s. None)
        (ustr ''100@0.2,'' @ [0xA0, 0x20] @ ustr ''None  @ 0.3'' @ [0x1C, 0x3000])
       = Inr [(Some 100, 2 / 10), (None, 3 / 10)]
   \<and> (parse_tiers decimal_literal (\<lambda>s. None) (ustr ''100@0.2, 0.3'') = Inl UnpackError
        \<or> parse_tiers decimal_literal (\<lambda>s. None) (ustr ''100@0.2, 0.3'') = Inl FloatError)
   \<and> parse_tiers decimal_literal (\<lambda>s. None) (ustr ''100@0.2, *@0.3'')
       = Inr [(Some 100, 2 / 10), (None, 3 / 10)]
   \<and> parse_tiers decimal_literal (\<lambda>s. None) ([0xA0] @ ustr ''*  @0.2'' @ [0x1C, 0x3000])
       = Inr [(None, 2 / 10)]"
proof -
  let ?es = "[(([], ustr ''100'', []), ([], ustr ''0.2'', [])),
              (([0xA0, 0x20], ustr ''None'', ustr ''  ''),
               (ustr '' '', ustr ''0.3'', [0x1C, 0x3000]))]"
  let ?ps = "[ustr ''100@0.2'', ustr '' 0.3'']"
  have c: "size_component ([], ustr ''100'', [])" "rate_component ([], ustr ''0.2'', [])"
    "size_component ([0xA0, 0x20], ustr ''None'', ustr ''  '')"
    "rate_component (ustr '' '', ustr ''0.3'', [0x1C, 0x3000])"
    by (simp_all add: size_component_def rate_component_def token_def plain_def ustr_def
          isspace_def float_space_def)
  have t: "join (ustr '','') (map entry_text ?es)
      = ustr ''100@0.2,'' @ [0xA0, 0x20] @ ustr ''None  @ 0.3'' @ [0x1C, 0x3000]"
    "join (ustr '','') ?ps = ustr ''100@0.2, 0.3''"
    by (simp_all add: ustr_def entry_text_def typed_def)
  have v: "first_visible (join (ustr '','') (map entry_text ?es)) \<noteq> Some (of_char CHR ''['')"
    "first_visible (join (ustr '','') ?ps) \<noteq> Some (of_char CHR ''['')"
    unfolding t by (simp_all add: first_visible_def ustr_def isspace_def)
  have r: "token_size decimal_literal (ustr ''100'') = Some (Some 100)"
    "token_size decimal_literal (ustr ''None'') = Some None"
    by (simp_all add: token_size_def decimal_literal_examples) (simp add: ustr_def)
  have p: "\<forall>p \<in> set ?ps. of_char CHR '','' \<notin> set p" "\<exists>p \<in> set ?ps. of_char CHR ''@'' \<notin> set p"
    "join (ustr '','') ?ps \<noteq> []"
    by (simp_all add: ustr_def)
  from shorthand_grammar [of ?es decimal_literal "\<lambda>s. None" ?ps] c v p
  have "parse_tiers decimal_literal (\<lambda>s. None) (join (ustr '','') (map entry_text ?es))
       = Inr [(Some 100, 2 / 10), (None, 3 / 10)]"
    and "parse_tiers decimal_literal (\<lambda>s. None) (join (ustr '','') ?ps) = Inl UnpackError
        \<or> parse_tiers decimal_literal (\<lambda>s. None) (join (ustr '','') ?ps) = Inl FloatError"
    and "parse_tiers decimal_literal (\<lambda>s. None) (ustr ''100@0.2, *@0.3'')
       = Inr [(Some 100, 2 / 10), (None, 3 / 10)]"
    and "parse_tiers decimal_literal (\<lambda>s. None) ([0xA0] @ ustr ''*  @0.2'' @ [0x1C, 0x3000])
       = Inr [(None, 2 / 10)]"
    by (simp_all add: token_of_def r decimal_literal_examples del: not_None_eq)
  with c show ?thesis by (simp only: t)
qed





subsection \<open>Breakdown formatter\<close>

text \<open>
  Claim C8, evaluated on the bill of \<open>calculate_tiered_bill(60, [(50, 0.5), (None, 1.0)], 0)\<close>.
  The text is one string whose pieces are joined by the two characters \<open>/n\<close>; each
  entry piece is indented by two spaces and holds, between \<open>kWh\<close> and the rate, the
  five bytes C3 83 E2 80 94 (the characters U+00C3 and U+2014), not the multiplication
  sign U+00D7 (bytes C3 97). Currency values are the symbol, the grouped integer part
  and two decimals: \<open>format_currency(1234.5)\<close> is \<open>$1,234.50\<close>.
\<close>

theorem format_breakdown_output:
  "calculate_tiered_bill 60 [(Some 50, 1 / 2), (None, 1)] 0
     = Inr \<lparr>breakdown =
             [\<lparr>tier_index = 1, kwh = 50, rate = 1 / 2, cost = 25\<rparr>,
              \<lparr>tier_index = 2, kwh = 10, rate = 1, cost = 10\<rparr>],
            energy_cost = 35, fixed_fee = 0, total = 35\<rparr>
   \<and> format_breakdown
        (bill_dict \<lparr>breakdown =
             [\<lparr>tier_index = 1, kwh = 50, rate = 1 / 2, cost = 25\<rparr>,
              \<lparr>tier_index = 2, kwh = 10, rate = 1, cost = 10\<rparr>],
            energy_cost = 35, fixed_fee = 0, total = 35\<rparr>) ''$''
     = ''Breakdown:/n  Tier 1: 50.000 kWh '' @ [CHR 0xC3, CHR 0x83, CHR 0xE2, CHR 0x80, CHR 0x94]
       @ '' $0.50 = $25.00/n  Tier 2: 10.000 kWh '' @ [CHR 0xC3, CHR 0x83, CHR 0xE2, CHR 0x80, CHR 0x94]
       @ '' $1.00 = $10.00/n/nEnergy cost = $35.00/nFixed fee   = $0.00/nTotal bill  = $35.00''
   \<and> [CHR 0xC3, CHR 0x83, CHR 0xE2, CHR 0x80, CHR 0x94] \<noteq> [CHR 0xC3, CHR 0x97]
   \<and> format_currency (12345 / 10) ''$'' = ''$1,234.50''"
proof -
  have c: "calculate_tiered_bill 60 [(Some 50, 1 / 2), (None, 1)] 0
     = Inr \<lparr>breakdown =
             [\<lparr>tier_index = 1, kwh = 50, rate = 1 / 2, cost = 25\<rparr>,
              \<lparr>tier_index = 2, kwh = 10, rate = 1, cost = 10\<rparr>],
            energy_cost = 35, fixed_fee = 0, total = 35\<rparr>"
    by (simp add: calculate_tiered_bill_def validate_common_def validate_tier_list_def
          py_sum_def Let_def)
  have k: "format_f False 3 50 = ''50.000''" "format_f False 3 10 = ''10.000''"
    by (simp_all add: format_eval)
  have m: "format_currency (1 / 2) ''$'' = ''$0.50''" "format_currency 25 ''$'' = ''$25.00''"
    "format_currency 1 ''$'' = ''$1.00''" "format_currency 10 ''$'' = ''$10.00''"
    "format_currency 35 ''$'' = ''$35.00''" "format_currency 0 ''$'' = ''$0.00''"
    by (simp_all add: format_currency_def format_eval)
  have g: "format_currency (12345 / 10) ''$'' = ''$1,234.50''"
    by (simp add: format_currency_def format_eval)
  have n: "str_int 1 = ''1''" "str_int 2 = ''2''"
    by (simp_all add: str_int_def str_nat.simps digit_char_def)
  have f: "format_breakdown
        (bill_dict \<lparr>breakdown =
             [\<lparr>tier_index = 1, kwh = 50, rate = 1 / 2, cost = 25\<rparr>,
              \<lparr>tier_index = 2, kwh = 10, rate = 1, cost = 10\<rparr>],
            energy_cost = 35, fixed_fee = 0, total = 35\<rparr>) ''$''
     = ''Breakdown:/n  Tier 1: 50.000 kWh '' @ [CHR 0xC3, CHR 0x83, CHR 0xE2, CHR 0x80, CHR 0x94]
       @ '' $0.50 = $25.00/n  Tier 2: 10.000 kWh '' @ [CHR 0xC3, CHR 0x83, CHR 0xE2, CHR 0x80, CHR 0x94]
       @ '' $1.00 = $10.00/n/nEnergy cost = $35.00/nFixed fee   = $0.00/nTotal bill  = $35.00''"
    unfolding format_breakdown_def bill_dict_def
    by (simp add: entry_line_def as_dict_def k m n times_literal_def)
  from c f g show ?thesis by simp
qed

end
